theory Spec2Isabelle
  imports Complex_Main "HOL-Library.Word"
begin

unbundle bit_operations_syntax

section \<open>JavaScript values\<close>

text \<open>
  A JavaScript string is a sequence of UTF-16 code units; \<open>charCodeAt\<close> reads one as a
  number in \<open>0..65535\<close>. Strings are modelled as lists of code units, so that characters
  above Latin-1 (on which \<open>btoa\<close> throws) are part of the model. \<open>js\<close> writes an ASCII
  literal of the source as such a list. Times are the integer milliseconds of \<open>Date.now()\<close>.
\<close>

type_synonym jsstring = "nat list"

definition js :: "string \<Rightarrow> jsstring" where
  "js s = map of_char s"

text \<open>
  What the source throws is a value of \<open>exn\<close>: the exception of \<open>btoa\<close> and \<open>atob\<close>,
  the one of \<open>JSON.parse\<close>, the one of an assignment to a property of a primitive value
  (the code of a class is strict), a rejected storage call, and the \<open>Error\<close> that
  \<open>secureStore\<close> throws from its catch block.
\<close>

datatype exn = InvalidCharacterError | SyntaxError | TypeError | StorageError | SecureStoreError

text \<open>
  The numbers of the rate limiter are counts and times, which are integers, and \<open>NaN\<close>,
  which \<open>undefined++\<close> makes. A property that may be missing holds a \<open>number option\<close>,
  \<open>None\<close> for \<open>undefined\<close>.
\<close>

datatype number = NaN | Num int

definition ToNumber :: "number option \<Rightarrow> number" where
  "ToNumber v = (case v of None \<Rightarrow> NaN | Some n \<Rightarrow> n)"

text \<open>\<open>x - y\<close>, \<open>x > y\<close>, \<open>x >= y\<close>, \<open>x + 1\<close> and \<open>Math.ceil(x / d)\<close> for an integer \<open>d > 0\<close>.\<close>

definition subtract :: "number \<Rightarrow> number \<Rightarrow> number" where
  "subtract x y = (case (x, y) of (Num a, Num b) \<Rightarrow> Num (a - b) | _ \<Rightarrow> NaN)"

definition greater_than :: "number \<Rightarrow> number \<Rightarrow> bool" where
  "greater_than x y = (case (x, y) of (Num a, Num b) \<Rightarrow> a > b | _ \<Rightarrow> False)"

definition at_least :: "number \<Rightarrow> number \<Rightarrow> bool" where
  "at_least x y = (case (x, y) of (Num a, Num b) \<Rightarrow> a \<ge> b | _ \<Rightarrow> False)"

definition increment :: "number \<Rightarrow> number" where
  "increment x = (case x of NaN \<Rightarrow> NaN | Num a \<Rightarrow> Num (a + 1))"

definition Math_ceil_div :: "number \<Rightarrow> int \<Rightarrow> number" where
  "Math_ceil_div x d = (case x of NaN \<Rightarrow> NaN | Num a \<Rightarrow> Num (- ((- a) div d)))"

section \<open>The object \<open>authAttempts\<close> and its prototype chain\<close>

text \<open>
  \<open>authAttempts\<close> is created by the object literal \<open>{}\<close>, so its prototype is
  \<open>Object.prototype\<close>, and \<open>this.authAttempts[username]\<close> is a property lookup along
  the prototype chain. The objects that such a lookup can return are: the entry stored
  under a name, the object that an assignment to \<open>__proto__\<close> installed as the prototype
  of the table, \<open>Object.prototype\<close> itself (which the getter of \<open>__proto__\<close> returns),
  and the functions that \<open>Object.prototype\<close> binds to its method names. The function
  reads and writes two properties of them, \<open>count\<close> and \<open>lastAttempt\<close>.
\<close>

record slots =
  count :: "number option"
  lastAttempt :: "number option"

datatype property = Count | LastAttempt

definition slot :: "property \<Rightarrow> slots \<Rightarrow> number option" where
  "slot p s = (case p of Count \<Rightarrow> count s | LastAttempt \<Rightarrow> lastAttempt s)"

definition slot_update :: "property \<Rightarrow> number \<Rightarrow> slots \<Rightarrow> slots" where
  "slot_update p n s =
     (case p of Count \<Rightarrow> s\<lparr>count := Some n\<rparr> | LastAttempt \<Rightarrow> s\<lparr>lastAttempt := Some n\<rparr>)"

text \<open>The property of an object with the given name, when it is one of the two.\<close>

definition named :: "jsstring \<Rightarrow> slots \<Rightarrow> number option" where
  "named name s =
     (if name = js ''count'' then count s
      else if name = js ''lastAttempt'' then lastAttempt s
      else None)"

datatype object = Entry jsstring | Installed | ObjectPrototype | Function jsstring

datatype val = Undefined | Number number | Object object

definition truthy :: "val \<Rightarrow> bool" where
  "truthy v = (case v of Undefined \<Rightarrow> False | Number NaN \<Rightarrow> False | Number (Num n) \<Rightarrow> n \<noteq> 0
               | Object obj \<Rightarrow> True)"

text \<open>
  The part of the heap that the rate limiter reaches: the own properties of the table
  \<open>authAttempts\<close>, the object installed as its prototype (\<open>None\<close> while the prototype is
  \<open>Object.prototype\<close>), and the properties \<open>count\<close> and \<open>lastAttempt\<close> of
  \<open>Object.prototype\<close> and of each of its functions.
\<close>

record heap =
  authAttempts :: "jsstring \<rightharpoonup> slots"
  installed :: "slots option"
  Object_prototype :: slots
  Function_slots :: "jsstring \<Rightarrow> slots"

text \<open>
  The function-valued properties of \<open>Object.prototype\<close>; \<open>__proto__\<close> is its one
  accessor property.
\<close>

definition Object_prototype_functions :: "jsstring list" where
  "Object_prototype_functions =
     [js ''constructor'', js ''hasOwnProperty'', js ''isPrototypeOf'',
      js ''propertyIsEnumerable'', js ''toLocaleString'', js ''toString'', js ''valueOf'',
      js ''__defineGetter__'', js ''__defineSetter__'', js ''__lookupGetter__'',
      js ''__lookupSetter__'']"

definition no_slots :: slots where
  "no_slots = \<lparr>count = None, lastAttempt = None\<rparr>"

definition own_slots :: "heap \<Rightarrow> object \<Rightarrow> slots" where
  "own_slots h obj =
     (case obj of
        Entry name \<Rightarrow> (case authAttempts h name of None \<Rightarrow> no_slots | Some s \<Rightarrow> s)
      | Installed \<Rightarrow> (case installed h of None \<Rightarrow> no_slots | Some s \<Rightarrow> s)
      | ObjectPrototype \<Rightarrow> Object_prototype h
      | Function name \<Rightarrow> Function_slots h name)"

text \<open>
  \<open>Object.prototype[name]\<close> for the table as receiver: a property that an assignment
  added, the prototype of the table for \<open>__proto__\<close>, a function for a method name.
\<close>

definition Object_prototype_get :: "heap \<Rightarrow> jsstring \<Rightarrow> val" where
  "Object_prototype_get h name =
     (case named name (Object_prototype h) of
        Some n \<Rightarrow> Number n
      | None \<Rightarrow>
          if name = js ''__proto__'' then
            (case installed h of None \<Rightarrow> Object ObjectPrototype | Some s \<Rightarrow> Object Installed)
          else if name \<in> set Object_prototype_functions then Object (Function name)
          else Undefined)"

text \<open>\<open>this.authAttempts[name]\<close>: own property, installed prototype, \<open>Object.prototype\<close>.\<close>

definition table_get :: "heap \<Rightarrow> jsstring \<Rightarrow> val" where
  "table_get h name =
     (case authAttempts h name of
        Some s \<Rightarrow> Object (Entry name)
      | None \<Rightarrow>
          (case installed h of
             None \<Rightarrow> Object_prototype_get h name
           | Some p \<Rightarrow>
               (case named name p of
                  Some n \<Rightarrow> Number n
                | None \<Rightarrow> Object_prototype_get h name)))"

text \<open>
  \<open>this.authAttempts[name] = entry\<close>: an own property is overwritten; otherwise the
  setter of \<open>__proto__\<close> makes the entry the prototype of the table, and every other name
  (the inherited data properties are writable) becomes an own property.
\<close>

definition table_set :: "jsstring \<Rightarrow> slots \<Rightarrow> heap \<Rightarrow> heap" where
  "table_set name entry h =
     (if authAttempts h name = None \<and> name = js ''__proto__'' then h\<lparr>installed := Some entry\<rparr>
      else h\<lparr>authAttempts := (authAttempts h)(name \<mapsto> entry)\<rparr>)"

text \<open>
  \<open>v.count\<close> and \<open>v.lastAttempt\<close>: an object answers with its own property or with the
  one of \<open>Object.prototype\<close>, at which every chain here ends (neither \<open>Function.prototype\<close>
  nor \<open>Number.prototype\<close> has a property of these names); a number answers through its
  wrapper; \<open>undefined\<close> throws.
\<close>

definition Get :: "heap \<Rightarrow> val \<Rightarrow> property \<Rightarrow> exn + number option" where
  "Get h v p =
     (case v of
        Undefined \<Rightarrow> Inl TypeError
      | Number n \<Rightarrow> Inr (slot p (Object_prototype h))
      | Object obj \<Rightarrow>
          (case slot p (own_slots h obj) of
             Some n \<Rightarrow> Inr (Some n)
           | None \<Rightarrow> Inr (slot p (Object_prototype h))))"

text \<open>
  \<open>v.count = n\<close> and \<open>v.lastAttempt = n\<close>: the property becomes an own property of the
  object; on a number (and on \<open>undefined\<close>) the assignment throws.
\<close>

definition Put :: "val \<Rightarrow> property \<Rightarrow> number \<Rightarrow> heap \<Rightarrow> exn + heap" where
  "Put v p n h =
     (case v of
        Undefined \<Rightarrow> Inl TypeError
      | Number x \<Rightarrow> Inl TypeError
      | Object obj \<Rightarrow>
          (let s = slot_update p n (own_slots h obj) in
           case obj of
             Entry name \<Rightarrow> Inr (h\<lparr>authAttempts := (authAttempts h)(name \<mapsto> s)\<rparr>)
           | Installed \<Rightarrow> Inr (h\<lparr>installed := Some s\<rparr>)
           | ObjectPrototype \<Rightarrow> Inr (h\<lparr>Object_prototype := s\<rparr>)
           | Function name \<Rightarrow> Inr (h\<lparr>Function_slots := (Function_slots h)(name := s)\<rparr>)))"

section \<open>SecurityUtils.checkRateLimit and clearSensitiveData\<close>

record rate_result =
  allowed :: bool
  remainingTime :: "number option"

text \<open>The object literal \<open>{count: 1, lastAttempt: now}\<close>.\<close>

definition first_attempt :: "int \<Rightarrow> slots" where
  "first_attempt now = \<lparr>count = Some (Num 1), lastAttempt = Some (Num now)\<rparr>"

text \<open>
  \<open>checkRateLimit now username h\<close>: the body of the source function, with \<open>now\<close> the
  value \<open>Date.now()\<close> returned on its first line; the heap after the call is returned
  with the result, or with the exception thrown.
\<close>

definition checkRateLimit :: "int \<Rightarrow> jsstring \<Rightarrow> heap \<Rightarrow> (exn + rate_result) \<times> heap" where
  "checkRateLimit now username h =
     (let userAttempts = table_get h username in
      if \<not> truthy userAttempts then
        (Inr \<lparr>allowed = True, remainingTime = None\<rparr>, table_set username (first_attempt now) h)
      else
        (case Get h userAttempts LastAttempt of
           Inl e \<Rightarrow> (Inl e, h)
         | Inr recorded \<Rightarrow>
             if greater_than (subtract (Num now) (ToNumber recorded)) (Num (15 * 60 * 1000)) then
               (Inr \<lparr>allowed = True, remainingTime = None\<rparr>,
                table_set username (first_attempt now) h)
             else
               (case Get h userAttempts Count of
                  Inl e \<Rightarrow> (Inl e, h)
                | Inr c \<Rightarrow>
                    if at_least (ToNumber c) (Num 5) then
                      (Inr \<lparr>allowed = False,
                            remainingTime =
                              Some (Math_ceil_div
                                      (subtract (Num (15 * 60 * 1000))
                                         (subtract (Num now) (ToNumber recorded))) 1000)\<rparr>,
                       h)
                    else
                      (case Put userAttempts Count (increment (ToNumber c)) h of
                         Inl e \<Rightarrow> (Inl e, h)
                       | Inr h1 \<Rightarrow>
                           (case Put userAttempts LastAttempt (Num now) h1 of
                              Inl e \<Rightarrow> (Inl e, h1)
                            | Inr h2 \<Rightarrow>
                                (Inr \<lparr>allowed = True, remainingTime = None\<rparr>, h2))))))"

text \<open>\<open>this.authAttempts = {}\<close>: a new table, whose prototype is \<open>Object.prototype\<close>.\<close>

definition clearSensitiveData :: "heap \<Rightarrow> heap" where
  "clearSensitiveData h = h\<lparr>authAttempts := Map.empty, installed := None\<rparr>"

text \<open>Successive calls for one identity, at the given clock readings.\<close>

fun checkRateLimit_calls ::
    "int list \<Rightarrow> jsstring \<Rightarrow> heap \<Rightarrow> (exn + rate_result) list \<times> heap" where
  "checkRateLimit_calls [] username h = ([], h)"
| "checkRateLimit_calls (now # later) username h =
     (case checkRateLimit now username h of
        (r, h') \<Rightarrow>
          (case checkRateLimit_calls later username h' of
             (rs, h'') \<Rightarrow> (r # rs, h'')))"

text \<open>The heap at the start of the program: an empty table and nothing added to the built-ins.\<close>

definition fresh_heap :: heap where
  "fresh_heap =
     \<lparr>authAttempts = Map.empty, installed = None, Object_prototype = no_slots,
      Function_slots = (\<lambda>name. no_slots)\<rparr>"


section \<open>Platform functions used by SecurityUtils\<close>

subsection \<open>\<open>btoa\<close> and \<open>atob\<close>\<close>

text \<open>
  \<open>btoa\<close> throws when a code unit is above 255 and otherwise writes three bytes as four
  characters of the base64 alphabet, padding the last group with \<open>=\<close> (code 61).
\<close>

definition b64_char :: "nat \<Rightarrow> nat" where
  "b64_char n = (if n < 26 then 65 + n else if n < 52 then 71 + n else if n < 62 then n - 4
                 else if n = 62 then 43 else 47)"

definition b64_index :: "nat \<Rightarrow> nat option" where
  "b64_index c = (if 65 \<le> c \<and> c \<le> 90 then Some (c - 65)
                  else if 97 \<le> c \<and> c \<le> 122 then Some (c - 71)
                  else if 48 \<le> c \<and> c \<le> 57 then Some (c + 4)
                  else if c = 43 then Some 62 else if c = 47 then Some 63 else None)"

fun sextets :: "nat list \<Rightarrow> nat list" where
  "sextets (a # b # c # rest) =
     [a div 4, (a mod 4) * 16 + b div 16, (b mod 16) * 4 + c div 64, c mod 64] @ sextets rest"
| "sextets [a, b] = [a div 4, (a mod 4) * 16 + b div 16, (b mod 16) * 4]"
| "sextets [a] = [a div 4, (a mod 4) * 16]"
| "sextets [] = []"

definition btoa :: "jsstring \<Rightarrow> exn + jsstring" where
  "btoa s = (if list_ex (\<lambda>c. c > 255) s then Inl InvalidCharacterError
             else Inr (map b64_char (sextets s) @ replicate ((3 - length s mod 3) mod 3) 61))"

text \<open>
  \<open>atob\<close> is the forgiving base64 decoder: ASCII whitespace is removed, one or two
  closing \<open>=\<close> are dropped when the length is a multiple of four, a length of 1 modulo 4
  or a character outside the alphabet throws, and the bits left over are discarded.
\<close>

fun octets :: "nat list \<Rightarrow> nat list" where
  "octets (p # q # r # s # rest) =
     [p * 4 + q div 16, (q mod 16) * 16 + r div 4, (r mod 4) * 64 + s] @ octets rest"
| "octets [p, q, r] = [p * 4 + q div 16, (q mod 16) * 16 + r div 4]"
| "octets [p, q] = [p * 4 + q div 16]"
| "octets _ = []"

definition strip_padding :: "jsstring \<Rightarrow> jsstring" where
  "strip_padding d =
     (if length d mod 4 = 0 then
        (case rev d of
           c1 # c2 # r \<Rightarrow>
             if c1 = 61 \<and> c2 = 61 then rev r else if c1 = 61 then rev (c2 # r) else d
         | _ \<Rightarrow> d)
      else d)"

definition ascii_whitespace :: "nat \<Rightarrow> bool" where
  "ascii_whitespace c = (c = 9 \<or> c = 10 \<or> c = 12 \<or> c = 13 \<or> c = 32)"

definition atob :: "jsstring \<Rightarrow> exn + jsstring" where
  "atob data =
     (let d = strip_padding (filter (\<lambda>c. \<not> ascii_whitespace c) data) in
      if length d mod 4 = 1 then Inl InvalidCharacterError
      else (case those (map b64_index d) of
              None \<Rightarrow> Inl InvalidCharacterError
            | Some ss \<Rightarrow> Inr (octets ss)))"

subsection \<open>\<open>Number.prototype.toString(radix)\<close> on integers\<close>

definition digit_char :: "nat \<Rightarrow> nat" where
  "digit_char d = (if d < 10 then 48 + d else 87 + d)"

function digits :: "nat \<Rightarrow> nat \<Rightarrow> jsstring" where
  "digits radix n =
     (if n < radix \<or> radix < 2 then [digit_char n]
      else digits radix (n div radix) @ [digit_char (n mod radix)])"
  by pat_completeness auto
termination
  by (relation "measure (\<lambda>(radix, n). n)") auto

declare digits.simps [simp del]

definition Number_toString :: "int \<Rightarrow> nat \<Rightarrow> jsstring" where
  "Number_toString n radix =
     (if n < 0 then 45 # digits radix (nat (- n)) else digits radix (nat n))"

section \<open>SecurityUtils: encrypt, decrypt, hashPassword, generateSecureUserId\<close>

text \<open>
  \<open>key.charCodeAt(i % key.length)\<close>. For an empty key the index is \<open>NaN\<close>, the code read
  is \<open>NaN\<close>, and \<open>charCode ^ NaN\<close> is \<open>charCode ^ 0\<close>.
\<close>

definition keyCodeAt :: "jsstring \<Rightarrow> nat \<Rightarrow> nat" where
  "keyCodeAt key i = (if key = [] then 0 else key ! (i mod length key))"

definition fromCharCode :: "nat \<Rightarrow> nat" where
  "fromCharCode n = n mod 65536"

text \<open>The loop shared by \<open>encrypt\<close> and \<open>decrypt\<close>, from index \<open>i\<close> on.\<close>

fun xor_loop :: "nat \<Rightarrow> jsstring \<Rightarrow> jsstring \<Rightarrow> jsstring" where
  "xor_loop i [] key = []"
| "xor_loop i (charCode # rest) key =
     fromCharCode (charCode XOR keyCodeAt key i) # xor_loop (Suc i) rest key"

definition encrypt :: "jsstring \<Rightarrow> jsstring \<Rightarrow> exn + jsstring" where
  "encrypt text key = btoa (xor_loop 0 text key)"

definition decrypt :: "jsstring \<Rightarrow> jsstring \<Rightarrow> jsstring" where
  "decrypt encryptedText key =
     (case atob encryptedText of
        Inl e \<Rightarrow> []
      | Inr decoded \<Rightarrow> xor_loop 0 decoded key)"

text \<open>\<open>ToInt32\<close>: what \<open><<\<close> and \<open>&\<close> make of their operands and of their result.\<close>

definition ToInt32 :: "int \<Rightarrow> int" where
  "ToInt32 x = (x + 2 ^ 31) mod 2 ^ 32 - 2 ^ 31"

text \<open>
  The loop of \<open>hashPassword\<close>: \<open>hash = (hash << 5) - hash + char; hash = hash & hash\<close>.
\<close>

fun hash_loop :: "jsstring \<Rightarrow> int \<Rightarrow> int" where
  "hash_loop [] hash = hash"
| "hash_loop (char # rest) hash =
     hash_loop rest (ToInt32 (ToInt32 (hash * 32) - hash + int char))"

definition salt :: jsstring where
  "salt = js ''APP_SALT_2024''"

definition hashPassword :: "jsstring \<Rightarrow> exn + jsstring" where
  "hashPassword password =
     (if length password = 0 then Inr (Number_toString 0 10)
      else btoa (Number_toString (hash_loop password 0 + int (length salt)) 36))"

text \<open>
  The digest as the specification words it: \<open>hash = hash * 31 + charCode\<close> in wrapped
  32-bit signed arithmetic, plus the length of the salt, in base 36, base64-encoded.
\<close>

definition spec_digest :: "jsstring \<Rightarrow> exn + jsstring" where
  "spec_digest password =
     btoa (Number_toString
       (sint (foldl (\<lambda>hash charCode. hash * 31 + word_of_nat charCode) (0 :: 32 word) password)
          + 13) 36)"

text \<open>\<open>getEncryptionKey\<close> and \<open>generateSecureUserId\<close>, with \<open>now\<close> the value of \<open>Date.now()\<close>.\<close>

definition getEncryptionKey :: "int \<Rightarrow> jsstring" where
  "getEncryptionKey now = js ''RN_APP_'' @ Number_toString now 36"

definition generateSecureUserId :: "int \<Rightarrow> jsstring \<Rightarrow> exn + jsstring" where
  "generateSecureUserId now username =
     (let timestamp = Number_toString now 10 in
      case hashPassword (username @ timestamp) of
        Inl e \<Rightarrow> Inl e
      | Inr userHash \<Rightarrow> Inr (js ''user_'' @ take 12 userHash))"

text \<open>The strings \<open>btoa\<close> accepts, and the printable ASCII strings.\<close>

definition latin1 :: "jsstring \<Rightarrow> bool" where
  "latin1 s = list_all (\<lambda>c. c < 256) s"

definition printable_ascii :: "jsstring \<Rightarrow> bool" where
  "printable_ascii s = list_all (\<lambda>c. 32 \<le> c \<and> c \<le> 126) s"


section \<open>SecurityUtils.validateAndSanitizeInput and isWeakPassword\<close>

text \<open>\<open>String.prototype.trim\<close>: white space and line terminators are removed at both ends.\<close>

definition js_whitespace :: "nat \<Rightarrow> bool" where
  "js_whitespace c =
     (c = 9 \<or> c = 10 \<or> c = 11 \<or> c = 12 \<or> c = 13 \<or> c = 32 \<or> c = 160 \<or> c = 5760 \<or>
      (8192 \<le> c \<and> c \<le> 8202) \<or> c = 8232 \<or> c = 8233 \<or> c = 8239 \<or> c = 8287 \<or>
      c = 12288 \<or> c = 65279)"

definition trim :: "jsstring \<Rightarrow> jsstring" where
  "trim s = rev (dropWhile js_whitespace (rev (dropWhile js_whitespace s)))"

text \<open>
  The first \<open>replace\<close>, by the regular expression
  \<open><script\b[^<]*(?:(?!<\/script>)<[^<]*)*<\/script>\<close> with the flags \<open>g\<close> and \<open>i\<close>.
  A match starts at \<open><script\<close> (in any case) followed by a word boundary and ends with
  the first \<open></script>\<close> after it: \<open>[^<]*\<close> and the group can only stop at a
  \<open><\<close>, and the group refuses the one that opens \<open></script>\<close>. Without the \<open>u\<close>
  flag only the ASCII letters match in both cases.
\<close>

definition ascii_lower :: "nat \<Rightarrow> nat" where
  "ascii_lower c = (if 65 \<le> c \<and> c \<le> 90 then c + 32 else c)"

fun prefix_ignoring_case :: "jsstring \<Rightarrow> jsstring \<Rightarrow> bool" where
  "prefix_ignoring_case [] s = True"
| "prefix_ignoring_case (p # ps) [] = False"
| "prefix_ignoring_case (p # ps) (c # cs) = (ascii_lower c = p \<and> prefix_ignoring_case ps cs)"

definition word_char :: "nat \<Rightarrow> bool" where
  "word_char c = ((65 \<le> c \<and> c \<le> 90) \<or> (97 \<le> c \<and> c \<le> 122) \<or> (48 \<le> c \<and> c \<le> 57) \<or> c = 95)"

text \<open>The number of characters up to and including the first \<open></script>\<close>.\<close>

fun closing_tag_end :: "jsstring \<Rightarrow> nat option" where
  "closing_tag_end [] = None"
| "closing_tag_end (c # cs) =
     (if prefix_ignoring_case (js ''</script>'') (c # cs) then Some 9
      else map_option Suc (closing_tag_end cs))"

text \<open>The length of the match of the expression at the start of \<open>s\<close>, if there is one.\<close>

definition script_match :: "jsstring \<Rightarrow> nat option" where
  "script_match s =
     (if prefix_ignoring_case (js ''<script'') s \<and>
         (case drop 7 s of [] \<Rightarrow> True | c # cs \<Rightarrow> \<not> word_char c)
      then map_option (\<lambda>n. 7 + n) (closing_tag_end (drop 7 s))
      else None)"

text \<open>
  The global replace: \<open>skip\<close> characters of a match are still to be dropped; outside a
  match every position is tried in turn.
\<close>

fun remove_scripts :: "nat \<Rightarrow> jsstring \<Rightarrow> jsstring" where
  "remove_scripts skip [] = []"
| "remove_scripts (Suc skip) (c # cs) = remove_scripts skip cs"
| "remove_scripts 0 (c # cs) =
     (case script_match (c # cs) of
        Some n \<Rightarrow> remove_scripts (n - 1) cs
      | None \<Rightarrow> c # remove_scripts 0 cs)"

text \<open>The second \<open>replace\<close>, of the characters \<open>< > " ' % ; ( ) & +\<close>.\<close>

definition dangerous_char :: "nat \<Rightarrow> bool" where
  "dangerous_char c = (c \<in> set (js ''<>\"'' @ [39] @ js ''%;()&+''))"

definition sanitize :: "jsstring \<Rightarrow> jsstring" where
  "sanitize input = filter (\<lambda>c. \<not> dangerous_char c) (remove_scripts 0 (trim input))"

text \<open>
  \<open>/(?=.*[a-z])(?=.*[A-Z])(?=.*\d)/.test\<close>: at some start position all three lookaheads
  succeed; \<open>.\<close> does not cross a line terminator.
\<close>

definition line_terminator :: "nat \<Rightarrow> bool" where
  "line_terminator c = (c = 10 \<or> c = 13 \<or> c = 8232 \<or> c = 8233)"

definition lookahead :: "(nat \<Rightarrow> bool) \<Rightarrow> jsstring \<Rightarrow> bool" where
  "lookahead P s = list_ex P (takeWhile (\<lambda>c. \<not> line_terminator c) s)"

fun password_pattern :: "jsstring \<Rightarrow> bool" where
  "password_pattern [] = False"
| "password_pattern (c # cs) =
     ((lookahead (\<lambda>x. 97 \<le> x \<and> x \<le> 122) (c # cs) \<and>
       lookahead (\<lambda>x. 65 \<le> x \<and> x \<le> 90) (c # cs) \<and>
       lookahead (\<lambda>x. 48 \<le> x \<and> x \<le> 57) (c # cs)) \<or>
      password_pattern cs)"

text \<open>\<open>/^[a-zA-Z0-9_]+$/.test\<close>.\<close>

definition username_pattern :: "jsstring \<Rightarrow> bool" where
  "username_pattern s = (s \<noteq> [] \<and> list_all word_char s)"

datatype input_type = Username | Password | Text

record validation =
  isValid :: bool
  sanitized :: jsstring
  errors :: "jsstring list"

definition validateAndSanitizeInput :: "jsstring \<Rightarrow> input_type \<Rightarrow> validation" where
  "validateAndSanitizeInput input type =
     (let sanitized = sanitize input;
          errors =
            (case type of
               Username \<Rightarrow>
                 (if length sanitized < 3
                  then [js ''Username must be at least 3 characters long''] else []) @
                 (if length sanitized > 20
                  then [js ''Username must be less than 20 characters''] else []) @
                 (if \<not> username_pattern sanitized
                  then [js ''Username can only contain letters, numbers, and underscores'']
                  else [])
             | Password \<Rightarrow>
                 (if length sanitized < 8
                  then [js ''Password must be at least 8 characters long''] else []) @
                 (if \<not> password_pattern sanitized
                  then [js ''Password must contain uppercase, lowercase, and numeric characters'']
                  else [])
             | Text \<Rightarrow>
                 (if length sanitized > 1000
                  then [js ''Text content is too long (max 1000 characters)''] else []))
      in \<lparr>isValid = (length errors = 0), sanitized = sanitized, errors = errors\<rparr>)"

text \<open>
  \<open>toLowerCase\<close>, exact on ASCII and on the Kelvin sign (U+212A, whose lower case is
  \<open>k\<close>); every other character has a lower case outside ASCII, as it is itself, so that
  membership in the ASCII list below is the same.
\<close>

definition toLowerCase :: "jsstring \<Rightarrow> jsstring" where
  "toLowerCase s = map (\<lambda>c. if c = 8490 then 107 else ascii_lower c) s"

definition weakPasswords :: "jsstring list" where
  "weakPasswords =
     [js ''password'', js ''123456'', js ''password123'', js ''admin'', js ''qwerty'',
      js ''letmein'', js ''welcome'', js ''monkey'', js ''1234567890'', js ''secret'']"

definition isWeakPassword :: "jsstring \<Rightarrow> bool" where
  "isWeakPassword password = (toLowerCase password \<in> set weakPasswords)"

text \<open>\<open>Array.prototype.join\<close>.\<close>

fun join :: "jsstring \<Rightarrow> jsstring list \<Rightarrow> jsstring" where
  "join sep [] = []"
| "join sep [x] = x"
| "join sep (x # y # ys) = x @ sep @ join sep (y # ys)"


section \<open>The world: clock, AsyncStorage and the heap\<close>

text \<open>
  The state the source reads and writes. \<open>clock w n\<close> is what the \<open>n\<close>-th call of
  \<open>Date.now()\<close> returns and \<open>ticks\<close> counts the calls made; the readings are those of
  \<open>Date\<close>, integers of at most 8.64e15 in absolute value, which JavaScript subtracts and
  prints exactly. Every call of \<open>AsyncStorage\<close> can reject on its own: \<open>rejects w n\<close>
  tells whether the \<open>n\<close>-th call does, \<open>calls\<close> counts the calls made, and \<open>items\<close>
  is what the medium holds. \<open>heap\<close> is the heap of the rate limiter.
\<close>

record world =
  clock :: "nat \<Rightarrow> int"
  ticks :: nat
  rejects :: "nat \<Rightarrow> bool"
  calls :: nat
  items :: "jsstring \<rightharpoonup> jsstring"
  heap :: heap

definition Date_now :: "world \<Rightarrow> int \<times> world" where
  "Date_now w = (clock w (ticks w), w\<lparr>ticks := Suc (ticks w)\<rparr>)"

text \<open>A rejected \<open>setItem\<close> writes nothing.\<close>

definition AsyncStorage_setItem :: "jsstring \<Rightarrow> jsstring \<Rightarrow> world \<Rightarrow> (exn + unit) \<times> world" where
  "AsyncStorage_setItem key v w =
     (if rejects w (calls w) then (Inl StorageError, w\<lparr>calls := Suc (calls w)\<rparr>)
      else (Inr (), w\<lparr>calls := Suc (calls w), items := (items w)(key \<mapsto> v)\<rparr>))"

definition AsyncStorage_getItem :: "jsstring \<Rightarrow> world \<Rightarrow> (exn + jsstring option) \<times> world" where
  "AsyncStorage_getItem key w =
     (if rejects w (calls w) then (Inl StorageError, w\<lparr>calls := Suc (calls w)\<rparr>)
      else (Inr (items w key), w\<lparr>calls := Suc (calls w)\<rparr>))"

section \<open>SecurityUtils.secureStore and secureRetrieve\<close>

definition secureStore :: "jsstring \<Rightarrow> jsstring \<Rightarrow> world \<Rightarrow> (exn + unit) \<times> world" where
  "secureStore key v w =
     (case Date_now w of
        (now, w1) \<Rightarrow>
          let encryptionKey = getEncryptionKey now in
          (case encrypt v encryptionKey of
             Inl e \<Rightarrow> (Inl SecureStoreError, w1)
           | Inr encryptedValue \<Rightarrow>
               (case AsyncStorage_setItem (js ''secure_'' @ key) encryptedValue w1 of
                  (Inl e, w2) \<Rightarrow> (Inl SecureStoreError, w2)
                | (Inr u, w2) \<Rightarrow>
                    (case btoa encryptionKey of
                       Inl e \<Rightarrow> (Inl SecureStoreError, w2)
                     | Inr keyHash \<Rightarrow>
                         (case AsyncStorage_setItem (js ''key_'' @ key) keyHash w2 of
                            (Inl e, w3) \<Rightarrow> (Inl SecureStoreError, w3)
                          | (Inr u', w3) \<Rightarrow> (Inr (), w3))))))"

text \<open>\<open>!x\<close> for a string or \<open>null\<close>: absent and the empty string are falsy.\<close>

definition falsy :: "jsstring option \<Rightarrow> bool" where
  "falsy x = (case x of None \<Rightarrow> True | Some s \<Rightarrow> s = [])"

text \<open>
  The lines of \<open>secureRetrieve\<close> after its two reads, from the two values read; \<open>None\<close>
  is \<open>null\<close>.
\<close>

definition decrypt_stored :: "jsstring option \<Rightarrow> jsstring option \<Rightarrow> jsstring option" where
  "decrypt_stored encryptedValue keyHash =
     (if falsy encryptedValue \<or> falsy keyHash then None
      else (case (encryptedValue, keyHash) of
              (Some ev, Some kh) \<Rightarrow>
                (case atob kh of
                   Inl e \<Rightarrow> None
                 | Inr encryptionKey \<Rightarrow> Some (decrypt ev encryptionKey))
            | _ \<Rightarrow> None))"

text \<open>\<open>secureRetrieve\<close>: a rejected read is caught and gives \<open>null\<close>.\<close>

definition secureRetrieve :: "jsstring \<Rightarrow> world \<Rightarrow> jsstring option \<times> world" where
  "secureRetrieve key w =
     (case AsyncStorage_getItem (js ''secure_'' @ key) w of
        (Inl e, w1) \<Rightarrow> (None, w1)
      | (Inr encryptedValue, w1) \<Rightarrow>
          (case AsyncStorage_getItem (js ''key_'' @ key) w1 of
             (Inl e, w2) \<Rightarrow> (None, w2)
           | (Inr keyHash, w2) \<Rightarrow> (decrypt_stored encryptedValue keyHash, w2)))"

text \<open>What \<open>secureRetrieve\<close> returns for a key when both of its reads are served.\<close>

definition held :: "jsstring \<Rightarrow> world \<Rightarrow> jsstring option" where
  "held key w = decrypt_stored (items w (js ''secure_'' @ key)) (items w (js ''key_'' @ key))"


section \<open>The records of AuthService and their JSON text\<close>

record IUser =
  username :: jsstring
  userId :: jsstring
  createdAt :: int

record IAuthCredentials =
  cred_username :: jsstring
  cred_password :: jsstring

text \<open>The object \<open>createSession\<close> stores.\<close>

record session =
  session_userId :: jsstring
  session_username :: jsstring
  loginTime :: int
  sessionId :: jsstring

record auth_result =
  success :: bool
  error :: "jsstring option"
  user :: "IUser option"

subsection \<open>\<open>JSON.stringify\<close>\<close>

text \<open>
  \<open>JSON.stringify\<close> on the two shapes the service serialises: the array of user objects
  and the session object, keys in the order the objects were built, no white space. A
  string is quoted with the escapes of \<open>QuoteJSONString\<close>.
\<close>

definition unicode_escape :: "nat \<Rightarrow> jsstring" where
  "unicode_escape c =
     [92, 117, digit_char (c div 4096 mod 16), digit_char (c div 256 mod 16),
      digit_char (c div 16 mod 16), digit_char (c mod 16)]"

definition lead_surrogate :: "nat \<Rightarrow> bool" where
  "lead_surrogate c = (55296 \<le> c \<and> c \<le> 56319)"

definition trail_surrogate :: "nat \<Rightarrow> bool" where
  "trail_surrogate c = (56320 \<le> c \<and> c \<le> 57343)"

fun quote_units :: "jsstring \<Rightarrow> jsstring" where
  "quote_units [] = []"
| "quote_units (c # cs) =
     (if c = 8 then [92, 98] @ quote_units cs
      else if c = 9 then [92, 116] @ quote_units cs
      else if c = 10 then [92, 110] @ quote_units cs
      else if c = 12 then [92, 102] @ quote_units cs
      else if c = 13 then [92, 114] @ quote_units cs
      else if c = 34 then [92, 34] @ quote_units cs
      else if c = 92 then [92, 92] @ quote_units cs
      else if c < 32 then unicode_escape c @ quote_units cs
      else if lead_surrogate c then
        (case cs of
           [] \<Rightarrow> unicode_escape c
         | d # ds \<Rightarrow>
             if trail_surrogate d then c # d # quote_units ds
             else unicode_escape c @ quote_units cs)
      else if trail_surrogate c then unicode_escape c @ quote_units cs
      else c # quote_units cs)"

definition QuoteJSONString :: "jsstring \<Rightarrow> jsstring" where
  "QuoteJSONString s = [34] @ quote_units s @ [34]"

definition stringify_user :: "IUser \<Rightarrow> jsstring" where
  "stringify_user u =
     js ''{\"username\":'' @ QuoteJSONString (username u) @
     js '',\"userId\":'' @ QuoteJSONString (userId u) @
     js '',\"createdAt\":'' @ Number_toString (createdAt u) 10 @ js ''}''"

definition JSON_stringify_users :: "IUser list \<Rightarrow> jsstring" where
  "JSON_stringify_users us = js ''['' @ join (js '','') (map stringify_user us) @ js '']''"

definition JSON_stringify_session :: "session \<Rightarrow> jsstring" where
  "JSON_stringify_session s =
     js ''{\"userId\":'' @ QuoteJSONString (session_userId s) @
     js '',\"username\":'' @ QuoteJSONString (session_username s) @
     js '',\"loginTime\":'' @ Number_toString (loginTime s) 10 @
     js '',\"sessionId\":'' @ QuoteJSONString (sessionId s) @ js ''}''"

subsection \<open>\<open>JSON.parse\<close>\<close>

text \<open>
  \<open>JSON.parse\<close> on the texts above: a reader of the same two shapes, which answers
  \<open>SyntaxError\<close> to any other text. For a text that is not JSON this is what the
  platform function does. A JSON text of another form (white space, another order of keys,
  further keys, values of other types) is read by the platform function as a value that
  the records above do not hold; such a text is outside the model, and every theorem about
  the registry and the session is stated for slots that hold what the service wrote.
  Every function takes the text left to read and returns what it read with the rest.
\<close>

fun expect :: "jsstring \<Rightarrow> jsstring \<Rightarrow> jsstring option" where
  "expect [] s = Some s"
| "expect (p # ps) [] = None"
| "expect (p # ps) (c # cs) = (if c = p then expect ps cs else None)"

definition hex_value :: "nat \<Rightarrow> nat option" where
  "hex_value c =
     (if 48 \<le> c \<and> c \<le> 57 then Some (c - 48)
      else if 97 \<le> c \<and> c \<le> 102 then Some (c - 87)
      else if 65 \<le> c \<and> c \<le> 70 then Some (c - 55)
      else None)"

definition simple_escape :: "nat \<Rightarrow> nat option" where
  "simple_escape e =
     (if e = 34 then Some 34 else if e = 92 then Some 92 else if e = 47 then Some 47
      else if e = 98 then Some 8 else if e = 102 then Some 12 else if e = 110 then Some 10
      else if e = 114 then Some 13 else if e = 116 then Some 9 else None)"

definition hex4 :: "jsstring \<Rightarrow> (nat \<times> jsstring) option" where
  "hex4 s =
     (case s of
        h1 # h2 # h3 # h4 # rest \<Rightarrow>
          (case (hex_value h1, hex_value h2, hex_value h3, hex_value h4) of
             (Some a, Some b, Some c, Some d) \<Rightarrow> Some (a * 4096 + b * 256 + c * 16 + d, rest)
           | _ \<Rightarrow> None)
      | _ \<Rightarrow> None)"

text \<open>
  The characters of a string after its opening quote. The fuel is the length of the
  text, which a string cannot outrun.
\<close>

fun string_units :: "nat \<Rightarrow> jsstring \<Rightarrow> (jsstring \<times> jsstring) option" where
  "string_units 0 s = None"
| "string_units (Suc fuel) [] = None"
| "string_units (Suc fuel) (c # cs) =
     (if c = 34 then Some ([], cs)
      else if c = 92 then
        (case cs of
           [] \<Rightarrow> None
         | e # r \<Rightarrow>
             if e = 117 then
               (case hex4 r of
                  None \<Rightarrow> None
                | Some (x, r') \<Rightarrow> map_option (\<lambda>(xs, rest). (x # xs, rest)) (string_units fuel r'))
             else
               (case simple_escape e of
                  None \<Rightarrow> None
                | Some x \<Rightarrow> map_option (\<lambda>(xs, rest). (x # xs, rest)) (string_units fuel r)))
      else if c < 32 then None
      else map_option (\<lambda>(xs, rest). (c # xs, rest)) (string_units fuel cs))"

definition parse_string :: "jsstring \<Rightarrow> (jsstring \<times> jsstring) option" where
  "parse_string s = (case s of [] \<Rightarrow> None | c # cs \<Rightarrow> if c = 34 then string_units (length s) cs else None)"

fun parse_digits :: "jsstring \<Rightarrow> nat \<Rightarrow> nat \<times> jsstring" where
  "parse_digits [] acc = (acc, [])"
| "parse_digits (c # cs) acc =
     (if 48 \<le> c \<and> c \<le> 57 then parse_digits cs (acc * 10 + (c - 48)) else (acc, c # cs))"

text \<open>An integer: \<open>0\<close>, or digits that do not start with \<open>0\<close>, after an optional minus.\<close>

definition parse_natural :: "jsstring \<Rightarrow> (nat \<times> jsstring) option" where
  "parse_natural s =
     (case s of
        [] \<Rightarrow> None
      | c # cs \<Rightarrow>
          if c = 48 then Some (0, cs)
          else if 49 \<le> c \<and> c \<le> 57 then Some (parse_digits s 0)
          else None)"

definition parse_number :: "jsstring \<Rightarrow> (int \<times> jsstring) option" where
  "parse_number s =
     (case s of
        [] \<Rightarrow> None
      | c # cs \<Rightarrow>
          if c = 45 then map_option (\<lambda>(n, rest). (- int n, rest)) (parse_natural cs)
          else map_option (\<lambda>(n, rest). (int n, rest)) (parse_natural s))"

definition parse_user :: "jsstring \<Rightarrow> (IUser \<times> jsstring) option" where
  "parse_user s =
     (case expect (js ''{\"username\":'') s of None \<Rightarrow> None | Some r1 \<Rightarrow>
      case parse_string r1 of None \<Rightarrow> None | Some (name, r2) \<Rightarrow>
      case expect (js '',\"userId\":'') r2 of None \<Rightarrow> None | Some r3 \<Rightarrow>
      case parse_string r3 of None \<Rightarrow> None | Some (uid, r4) \<Rightarrow>
      case expect (js '',\"createdAt\":'') r4 of None \<Rightarrow> None | Some r5 \<Rightarrow>
      case parse_number r5 of None \<Rightarrow> None | Some (t, r6) \<Rightarrow>
      case expect (js ''}'') r6 of None \<Rightarrow> None | Some r7 \<Rightarrow>
        Some (\<lparr>username = name, userId = uid, createdAt = t\<rparr>, r7))"

text \<open>The elements after the first, up to the closing bracket and the end of the text.\<close>

fun parse_more_users :: "nat \<Rightarrow> jsstring \<Rightarrow> IUser list option" where
  "parse_more_users 0 s = None"
| "parse_more_users (Suc fuel) s =
     (case s of
        [] \<Rightarrow> None
      | c # rest \<Rightarrow>
          if c = 93 then (if rest = [] then Some [] else None)
          else if c = 44 then
            (case parse_user rest of
               None \<Rightarrow> None
             | Some (u, r) \<Rightarrow> map_option (\<lambda>us. u # us) (parse_more_users fuel r))
          else None)"

definition JSON_parse_users :: "jsstring \<Rightarrow> exn + IUser list" where
  "JSON_parse_users s =
     (case s of
        [] \<Rightarrow> Inl SyntaxError
      | c # rest \<Rightarrow>
          if c \<noteq> 91 then Inl SyntaxError
          else if rest = js '']'' then Inr []
          else (case parse_user rest of
                  None \<Rightarrow> Inl SyntaxError
                | Some (u, r) \<Rightarrow>
                    (case parse_more_users (length s) r of
                       None \<Rightarrow> Inl SyntaxError
                     | Some us \<Rightarrow> Inr (u # us))))"

definition JSON_parse_session :: "jsstring \<Rightarrow> exn + session" where
  "JSON_parse_session s =
     (case expect (js ''{\"userId\":'') s of None \<Rightarrow> Inl SyntaxError | Some r1 \<Rightarrow>
      case parse_string r1 of None \<Rightarrow> Inl SyntaxError | Some (uid, r2) \<Rightarrow>
      case expect (js '',\"username\":'') r2 of None \<Rightarrow> Inl SyntaxError | Some r3 \<Rightarrow>
      case parse_string r3 of None \<Rightarrow> Inl SyntaxError | Some (name, r4) \<Rightarrow>
      case expect (js '',\"loginTime\":'') r4 of None \<Rightarrow> Inl SyntaxError | Some r5 \<Rightarrow>
      case parse_number r5 of None \<Rightarrow> Inl SyntaxError | Some (t, r6) \<Rightarrow>
      case expect (js '',\"sessionId\":'') r6 of None \<Rightarrow> Inl SyntaxError | Some r7 \<Rightarrow>
      case parse_string r7 of None \<Rightarrow> Inl SyntaxError | Some (sid, r8) \<Rightarrow>
        if r8 = js ''}''
        then Inr \<lparr>session_userId = uid, session_username = name, loginTime = t, sessionId = sid\<rparr>
        else Inl SyntaxError)"

text \<open>
  Strings of printable ASCII without quote and backslash: what the service itself writes
  into its records (validated user names, ids made of \<open>user_\<close> and base64 characters).
  Such a string is quoted as it is, and its JSON text is Latin-1.
\<close>

definition json_plain :: "jsstring \<Rightarrow> bool" where
  "json_plain s = list_all (\<lambda>c. 32 \<le> c \<and> c \<le> 126 \<and> c \<noteq> 34 \<and> c \<noteq> 92) s"

definition plain_user :: "IUser \<Rightarrow> bool" where
  "plain_user u = (json_plain (username u) \<and> json_plain (userId u))"


section \<open>AuthService\<close>

definition USERS_STORAGE_KEY :: jsstring where
  "USERS_STORAGE_KEY = js ''app_users''"

definition SESSION_STORAGE_KEY :: jsstring where
  "SESSION_STORAGE_KEY = js ''user_session''"

definition failure :: "jsstring \<Rightarrow> auth_result" where
  "failure message = \<lparr>success = False, error = Some message, user = None\<rparr>"

text \<open>
  \<open>getStoredUsers\<close>: nothing stored, a rejected read, the empty text and a text on which
  \<open>JSON.parse\<close> throws all give \<open>[]\<close>.
\<close>

definition getStoredUsers :: "world \<Rightarrow> IUser list \<times> world" where
  "getStoredUsers w =
     (case secureRetrieve USERS_STORAGE_KEY w of
        (usersData, w1) \<Rightarrow>
          (if falsy usersData then []
           else (case usersData of
                   None \<Rightarrow> []
                 | Some text \<Rightarrow>
                     (case JSON_parse_users text of Inl e \<Rightarrow> [] | Inr users \<Rightarrow> users)),
           w1))"

text \<open>
  \<open>registerUser\<close>. The state returned with a failure is the state at the point of the
  \<open>return\<close> or of the \<open>throw\<close> that the catch block turns into the last message.
\<close>

definition registerUser :: "IAuthCredentials \<Rightarrow> world \<Rightarrow> auth_result \<times> world" where
  "registerUser credentials w =
     (let usernameValidation = validateAndSanitizeInput (cred_username credentials) Username;
          passwordValidation = validateAndSanitizeInput (cred_password credentials) Password;
          failed = failure (js ''Registration failed. Please try again.'')
      in
      if \<not> isValid usernameValidation then
        (failure (join (js '', '') (errors usernameValidation)), w)
      else if \<not> isValid passwordValidation then
        (failure (join (js '', '') (errors passwordValidation)), w)
      else if isWeakPassword (cred_password credentials) then
        (failure (js ''Password is too common. Please choose a stronger password.''), w)
      else
        (case getStoredUsers w of (existingUsers, w0) \<Rightarrow>
        if list_ex (\<lambda>u. username u = sanitized usernameValidation) existingUsers then
          (failure (js ''Username already exists''), w0)
        else
          (case Date_now w0 of (t1, w1) \<Rightarrow>
           case generateSecureUserId t1 (sanitized usernameValidation) of
             Inl e \<Rightarrow> (failed, w1)
           | Inr uid \<Rightarrow>
          (case Date_now w1 of (t2, w2) \<Rightarrow>
           let newUser = \<lparr>username = sanitized usernameValidation, userId = uid, createdAt = t2\<rparr> in
           case hashPassword (sanitized passwordValidation) of
             Inl e \<Rightarrow> (failed, w2)
           | Inr passwordHash \<Rightarrow>
          (case secureStore (js ''pwd_'' @ userId newUser) passwordHash w2 of
             (Inl e, w3) \<Rightarrow> (failed, w3)
           | (Inr done, w3) \<Rightarrow>
          (let updatedUsers = existingUsers @ [newUser] in
           case secureStore USERS_STORAGE_KEY (JSON_stringify_users updatedUsers) w3 of
             (Inl e, w4) \<Rightarrow> (failed, w4)
           | (Inr done', w4) \<Rightarrow>
               (\<lparr>success = True, error = None, user = Some newUser\<rparr>, w4)))))))"

text \<open>
  \<open>createSession\<close>: \<open>Date.now()\<close> is read for \<open>loginTime\<close>, for the argument of
  \<open>generateSecureUserId\<close> and inside it, and once more by \<open>secureStore\<close>.
\<close>

definition createSession :: "IUser \<Rightarrow> world \<Rightarrow> (exn + unit) \<times> world" where
  "createSession u w =
     (case Date_now w of (t1, w1) \<Rightarrow>
      case Date_now w1 of (t2, w2) \<Rightarrow>
      case Date_now w2 of (t3, w3) \<Rightarrow>
      case generateSecureUserId t3 (username u @ Number_toString t2 10) of
        Inl e \<Rightarrow> (Inl e, w3)
      | Inr sid \<Rightarrow>
          secureStore SESSION_STORAGE_KEY
            (JSON_stringify_session
               \<lparr>session_userId = userId u, session_username = username u, loginTime = t1,
                sessionId = sid\<rparr>) w3)"

text \<open>\<open>Array.prototype.find\<close>.\<close>

definition find_user :: "jsstring \<Rightarrow> IUser list \<Rightarrow> IUser option" where
  "find_user name users = find (\<lambda>u. username u = name) users"

text \<open>The message of a throttled attempt: the seconds left, in minutes, rounded up.\<close>

definition throttled_message :: "number option \<Rightarrow> jsstring" where
  "throttled_message remaining =
     js ''Too many failed attempts. Please try again in '' @
     (case Math_ceil_div (ToNumber remaining) 60 of
        NaN \<Rightarrow> js ''NaN''
      | Num minutes \<Rightarrow> Number_toString minutes 10) @
     js '' minutes.''"

definition authenticateUser :: "IAuthCredentials \<Rightarrow> world \<Rightarrow> auth_result \<times> world" where
  "authenticateUser credentials w =
     (let usernameValidation = validateAndSanitizeInput (cred_username credentials) Username;
          passwordValidation = validateAndSanitizeInput (cred_password credentials) Password;
          failed = failure (js ''Authentication failed. Please try again.'')
      in
      if \<not> isValid usernameValidation \<or> \<not> isValid passwordValidation then
        (failure (js ''Invalid username or password format''), w)
      else
        (case Date_now w of (now, w1) \<Rightarrow>
         case checkRateLimit now (sanitized usernameValidation) (heap w1) of
           (Inl e, h) \<Rightarrow> (failed, w1\<lparr>heap := h\<rparr>)
         | (Inr rateLimit, h) \<Rightarrow>
         let w2 = w1\<lparr>heap := h\<rparr> in
         if \<not> allowed rateLimit then
           (failure (throttled_message (remainingTime rateLimit)), w2)
         else
           (case getStoredUsers w2 of (users, w3) \<Rightarrow>
            case find_user (sanitized usernameValidation) users of
              None \<Rightarrow> (failure (js ''Invalid username or password''), w3)
            | Some u \<Rightarrow>
                (case secureRetrieve (js ''pwd_'' @ userId u) w3 of
                   (storedPasswordHash, w4) \<Rightarrow>
                 case hashPassword (sanitized passwordValidation) of
                   Inl e \<Rightarrow> (failed, w4)
                 | Inr inputPasswordHash \<Rightarrow>
                     if storedPasswordHash \<noteq> Some inputPasswordHash then
                       (failure (js ''Invalid username or password''), w4)
                     else
                       (case createSession u w4 of
                          (Inl e, w5) \<Rightarrow> (failed, w5)
                        | (Inr done, w5) \<Rightarrow>
                            (\<lparr>success = True, error = None, user = Some u\<rparr>, w5))))))"

text \<open>
  \<open>logout\<close>: the table is cleared after the session slot was written; when one of the
  two writes of \<open>secureStore\<close> is rejected, the catch block only logs.
\<close>

definition logout :: "world \<Rightarrow> world" where
  "logout w =
     (case secureStore SESSION_STORAGE_KEY [] w of
        (Inl e, w1) \<Rightarrow> w1
      | (Inr done, w1) \<Rightarrow> w1\<lparr>heap := clearSensitiveData (heap w1)\<rparr>)"

definition getCurrentSession :: "world \<Rightarrow> IUser option \<times> world" where
  "getCurrentSession w =
     (case secureRetrieve SESSION_STORAGE_KEY w of
        (sessionData, w1) \<Rightarrow>
      if falsy sessionData then (None, w1)
      else (case sessionData of
              None \<Rightarrow> (None, w1)
            | Some text \<Rightarrow>
                (case JSON_parse_session text of
                   Inl e \<Rightarrow> (None, w1)
                 | Inr s \<Rightarrow>
                     (case Date_now w1 of (now, w2) \<Rightarrow>
                      if now - loginTime s > 24 * 60 * 60 * 1000 then (None, logout w2)
                      else
                        (Some \<lparr>username = session_username s, userId = session_userId s,
                               createdAt = loginTime s\<rparr>, w2)))))"

text \<open>
  A world with nothing stored, the heap of the start, a medium that serves every call and
  the given clock.
\<close>

definition fresh_world :: "(nat \<Rightarrow> int) \<Rightarrow> world" where
  "fresh_world c =
     \<lparr>clock = c, ticks = 0, rejects = (\<lambda>n. False), calls = 0, items = Map.empty,
      heap = fresh_heap\<rparr>"

text \<open>Two calls of \<open>generateSecureUserId\<close> in succession, each reading the clock.\<close>

definition generateSecureUserId_twice ::
    "jsstring \<Rightarrow> world \<Rightarrow> (exn + jsstring) \<times> (exn + jsstring)" where
  "generateSecureUserId_twice name w =
     (case Date_now w of (t1, w1) \<Rightarrow>
      case Date_now w1 of (t2, w2) \<Rightarrow>
        (generateSecureUserId t1 name, generateSecureUserId t2 name))"


section \<open>Properties of the rate limiter\<close>

lemma Math_ceil_div_ceiling:
  "Math_ceil_div (Num x) d = Num \<lceil>real_of_int x / real_of_int d\<rceil>"
  by (simp add: Math_ceil_div_def ceiling_divide_eq_div)

lemmas number_eval =
  ToNumber_def subtract_def greater_than_def at_least_def increment_def Math_ceil_div_def

lemmas heap_eval =
  table_get_def table_set_def Object_prototype_get_def named_def truthy_def Get_def Put_def
  own_slots_def slot_def slot_update_def no_slots_def first_attempt_def
  Object_prototype_functions_def

text \<open>
  A name that is neither bound in the table nor the name of a property that the table
  inherits is looked up as \<open>undefined\<close>.
\<close>

lemma table_get_ordinary:
  assumes "authAttempts h u = None" "u \<notin> set Object_prototype_functions"
    "u \<noteq> js ''__proto__''" "u \<noteq> js ''count''" "u \<noteq> js ''lastAttempt''"
  shows "table_get h u = Undefined"
  using assms
  by (simp add: table_get_def Object_prototype_get_def named_def split: option.split)

lemma falsy_not_proto:
  assumes "\<not> truthy (table_get h u)"
  shows "authAttempts h u = None \<and> u \<noteq> js ''__proto__''"
proof -
  have n: "\<And>s. named (js ''__proto__'') s = None" by (simp add: named_def js_def)
  show ?thesis using assms
    by (auto simp: table_get_def Object_prototype_get_def truthy_def n split: option.splits)
qed

lemma checkRateLimit_unseen:
  assumes "\<not> truthy (table_get h u)"
  shows "checkRateLimit now u h =
     (Inr \<lparr>allowed = True, remainingTime = None\<rparr>,
      h\<lparr>authAttempts := (authAttempts h)(u \<mapsto> first_attempt now)\<rparr>)"
  using assms falsy_not_proto [OF assms]
  by (simp add: checkRateLimit_def table_set_def)

lemma table_get_entry: "authAttempts h u = Some e \<Longrightarrow> table_get h u = Object (Entry u)"
  by (simp add: table_get_def)

lemma checkRateLimit_entry:
  assumes "authAttempts h u = Some \<lparr>count = Some (Num c), lastAttempt = Some (Num t)\<rparr>"
  shows "checkRateLimit now u h =
     (if now - t > 900000 then
        (Inr \<lparr>allowed = True, remainingTime = None\<rparr>,
         h\<lparr>authAttempts := (authAttempts h)(u \<mapsto> first_attempt now)\<rparr>)
      else if c \<ge> 5 then
        (Inr \<lparr>allowed = False,
              remainingTime = Some (Num \<lceil>real_of_int (900000 - (now - t)) / 1000\<rceil>)\<rparr>, h)
      else
        (Inr \<lparr>allowed = True, remainingTime = None\<rparr>,
         h\<lparr>authAttempts :=
              (authAttempts h)(u \<mapsto> \<lparr>count = Some (Num (c + 1)), lastAttempt = Some (Num now)\<rparr>)\<rparr>))"
  using assms
  by (simp add: checkRateLimit_def table_get_entry truthy_def Get_def Put_def own_slots_def
      slot_def slot_update_def table_set_def ToNumber_def subtract_def greater_than_def at_least_def
      increment_def Math_ceil_div_ceiling)

lemma checkRateLimit_expired:
  assumes "authAttempts h u = Some \<lparr>count = c, lastAttempt = Some (Num t)\<rparr>" "now - t > 900000"
  shows "checkRateLimit now u h =
        (Inr \<lparr>allowed = True, remainingTime = None\<rparr>,
         h\<lparr>authAttempts := (authAttempts h)(u \<mapsto> first_attempt now)\<rparr>)"
  using assms
  by (simp add: checkRateLimit_def table_get_entry truthy_def Get_def own_slots_def
      slot_def table_set_def ToNumber_def subtract_def greater_than_def)


lemma five_calls:
  assumes "\<not> truthy (table_get h u)"
  shows "fst (checkRateLimit_calls [t1, t2, t3, t4, t5] u h) =
           [Inr \<lparr>allowed = True, remainingTime = None\<rparr>, Inr \<lparr>allowed = True, remainingTime = None\<rparr>,
            Inr \<lparr>allowed = True, remainingTime = None\<rparr>, Inr \<lparr>allowed = True, remainingTime = None\<rparr>,
            Inr \<lparr>allowed = True, remainingTime = None\<rparr>]"
    and "t2 - t1 \<le> 900000 \<Longrightarrow> t3 - t2 \<le> 900000 \<Longrightarrow> t4 - t3 \<le> 900000 \<Longrightarrow> t5 - t4 \<le> 900000 \<Longrightarrow>
         snd (checkRateLimit_calls [t1, t2, t3, t4, t5] u h) =
           h\<lparr>authAttempts := (authAttempts h)(u \<mapsto> \<lparr>count = Some (Num 5), lastAttempt = Some (Num t5)\<rparr>)\<rparr>"
proof -
  have step: "fst (checkRateLimit now u g) = Inr \<lparr>allowed = True, remainingTime = None\<rparr> \<and>
      (\<exists>c'. 1 \<le> c' \<and> c' \<le> c + 1 \<and> snd (checkRateLimit now u g) =
          g\<lparr>authAttempts := (authAttempts g)(u \<mapsto> \<lparr>count = Some (Num c'), lastAttempt = Some (Num now)\<rparr>)\<rparr>) \<and>
      (now - t \<le> 900000 \<longrightarrow> snd (checkRateLimit now u g) =
          g\<lparr>authAttempts := (authAttempts g)(u \<mapsto> \<lparr>count = Some (Num (c + 1)), lastAttempt = Some (Num now)\<rparr>)\<rparr>)"
    if e: "authAttempts g u = Some \<lparr>count = Some (Num c), lastAttempt = Some (Num t)\<rparr>"
      and c: "1 \<le> c" "c < 5" for g :: heap and c t now
  proof (cases "now - t > 900000")
    case True
    then have "checkRateLimit now u g = (Inr \<lparr>allowed = True, remainingTime = None\<rparr>,
        g\<lparr>authAttempts := (authAttempts g)(u \<mapsto> \<lparr>count = Some (Num 1), lastAttempt = Some (Num now)\<rparr>)\<rparr>)"
      by (simp add: checkRateLimit_entry [OF e] first_attempt_def)
    then show ?thesis using True c by (intro conjI exI [of _ 1]) simp_all
  next
    case False
    then have "checkRateLimit now u g = (Inr \<lparr>allowed = True, remainingTime = None\<rparr>,
        g\<lparr>authAttempts := (authAttempts g)(u \<mapsto> \<lparr>count = Some (Num (c + 1)), lastAttempt = Some (Num now)\<rparr>)\<rparr>)"
      using c by (simp add: checkRateLimit_entry [OF e])
    then show ?thesis using c by (intro conjI exI [of _ "c + 1"]) simp_all
  qed
  let ?ok = "Inr \<lparr>allowed = True, remainingTime = None\<rparr> :: exn + rate_result"
  define h1 where "h1 = h\<lparr>authAttempts := (authAttempts h)(u \<mapsto> \<lparr>count = Some (Num 1), lastAttempt = Some (Num t1)\<rparr>)\<rparr>"
  have c1: "checkRateLimit t1 u h = (?ok, h1)"
    using checkRateLimit_unseen [OF assms] by (simp add: h1_def first_attempt_def)
  have e1: "authAttempts h1 u = Some \<lparr>count = Some (Num 1), lastAttempt = Some (Num t1)\<rparr>"
    by (simp add: h1_def)
  define h2 where "h2 = snd (checkRateLimit t2 u h1)"
  from step [OF e1, of t2] obtain c2 where
    r2: "fst (checkRateLimit t2 u h1) = ?ok" and c2: "1 \<le> c2" "c2 \<le> 2"
    and s2: "h2 = h1\<lparr>authAttempts := (authAttempts h1)(u \<mapsto> \<lparr>count = Some (Num c2), lastAttempt = Some (Num t2)\<rparr>)\<rparr>"
    and x2: "t2 - t1 \<le> 900000 \<longrightarrow> h2 = h1\<lparr>authAttempts := (authAttempts h1)(u \<mapsto> \<lparr>count = Some (Num 2), lastAttempt = Some (Num t2)\<rparr>)\<rparr>"
    unfolding h2_def by auto
  have e2: "authAttempts h2 u = Some \<lparr>count = Some (Num c2), lastAttempt = Some (Num t2)\<rparr>"
    by (simp add: s2)
  define h3 where "h3 = snd (checkRateLimit t3 u h2)"
  from step [OF e2, of t3] c2 obtain c3 where
    r3: "fst (checkRateLimit t3 u h2) = ?ok" and c3: "1 \<le> c3" "c3 \<le> 3"
    and s3: "h3 = h2\<lparr>authAttempts := (authAttempts h2)(u \<mapsto> \<lparr>count = Some (Num c3), lastAttempt = Some (Num t3)\<rparr>)\<rparr>"
    and x3: "t3 - t2 \<le> 900000 \<longrightarrow> h3 = h2\<lparr>authAttempts := (authAttempts h2)(u \<mapsto> \<lparr>count = Some (Num (c2 + 1)), lastAttempt = Some (Num t3)\<rparr>)\<rparr>"
    unfolding h3_def by force
  have e3: "authAttempts h3 u = Some \<lparr>count = Some (Num c3), lastAttempt = Some (Num t3)\<rparr>"
    by (simp add: s3)
  define h4 where "h4 = snd (checkRateLimit t4 u h3)"
  from step [OF e3, of t4] c3 obtain c4 where
    r4: "fst (checkRateLimit t4 u h3) = ?ok" and c4: "1 \<le> c4" "c4 \<le> 4"
    and s4: "h4 = h3\<lparr>authAttempts := (authAttempts h3)(u \<mapsto> \<lparr>count = Some (Num c4), lastAttempt = Some (Num t4)\<rparr>)\<rparr>"
    and x4: "t4 - t3 \<le> 900000 \<longrightarrow> h4 = h3\<lparr>authAttempts := (authAttempts h3)(u \<mapsto> \<lparr>count = Some (Num (c3 + 1)), lastAttempt = Some (Num t4)\<rparr>)\<rparr>"
    unfolding h4_def by force
  have e4: "authAttempts h4 u = Some \<lparr>count = Some (Num c4), lastAttempt = Some (Num t4)\<rparr>"
    by (simp add: s4)
  define h5 where "h5 = snd (checkRateLimit t5 u h4)"
  from step [OF e4, of t5] c4 have
    r5: "fst (checkRateLimit t5 u h4) = ?ok"
    and x5: "t5 - t4 \<le> 900000 \<longrightarrow> h5 = h4\<lparr>authAttempts := (authAttempts h4)(u \<mapsto> \<lparr>count = Some (Num (c4 + 1)), lastAttempt = Some (Num t5)\<rparr>)\<rparr>"
    unfolding h5_def by force+
  have run: "checkRateLimit_calls [t1, t2, t3, t4, t5] u h = ([?ok, ?ok, ?ok, ?ok, ?ok], h5)"
  proof -
    have p2: "checkRateLimit t2 u h1 = (?ok, h2)" using r2 by (simp add: h2_def prod_eq_iff)
    have p3: "checkRateLimit t3 u h2 = (?ok, h3)" using r3 by (simp add: h3_def prod_eq_iff)
    have p4: "checkRateLimit t4 u h3 = (?ok, h4)" using r4 by (simp add: h4_def prod_eq_iff)
    have p5: "checkRateLimit t5 u h4 = (?ok, h5)" using r5 by (simp add: h5_def prod_eq_iff)
    show ?thesis by (simp add: c1 p2 p3 p4 p5)
  qed
  show "fst (checkRateLimit_calls [t1, t2, t3, t4, t5] u h) = [?ok, ?ok, ?ok, ?ok, ?ok]"
    using run by simp
  assume g: "t2 - t1 \<le> 900000" "t3 - t2 \<le> 900000" "t4 - t3 \<le> 900000" "t5 - t4 \<le> 900000"
  have y2: "h2 = h\<lparr>authAttempts := (authAttempts h)(u \<mapsto> \<lparr>count = Some (Num 2), lastAttempt = Some (Num t2)\<rparr>)\<rparr>"
    using x2 g(1) by (simp add: h1_def)
  then have k2: "c2 = 2" using e2 by simp
  have y3: "h3 = h\<lparr>authAttempts := (authAttempts h)(u \<mapsto> \<lparr>count = Some (Num 3), lastAttempt = Some (Num t3)\<rparr>)\<rparr>"
    using x3 g(2) k2 by (simp add: y2)
  then have k3: "c3 = 3" using e3 by simp
  have y4: "h4 = h\<lparr>authAttempts := (authAttempts h)(u \<mapsto> \<lparr>count = Some (Num 4), lastAttempt = Some (Num t4)\<rparr>)\<rparr>"
    using x4 g(3) k3 by (simp add: y3)
  then have k4: "c4 = 4" using e4 by simp
  have y5: "h5 = h\<lparr>authAttempts := (authAttempts h)(u \<mapsto> \<lparr>count = Some (Num 5), lastAttempt = Some (Num t5)\<rparr>)\<rparr>"
    using x5 g(4) k4 by (simp add: y4)
  show "snd (checkRateLimit_calls [t1, t2, t3, t4, t5] u h) =
           h\<lparr>authAttempts := (authAttempts h)(u \<mapsto> \<lparr>count = Some (Num 5), lastAttempt = Some (Num t5)\<rparr>)\<rparr>"
    using run y5 by simp
qed

text \<open>
  Claim C2, as amended. Let the lookup of the identity in the table give nothing
  (\<open>undefined\<close>, or a number that counts as false), as it does when the identity has no
  entry and is not the name of a property that the table inherits from
  \<open>Object.prototype\<close>. Then the first five calls all return allowed, whatever their
  times. When each of them is made no more than 15 minutes after the one before, the heap
  then differs from the first one in the entry of the identity alone, which holds count 5
  and the time of the fifth call, and a sixth call no more than 15 minutes after it is
  refused with \<open>remainingTime = ceil((900000 - (now - lastAttempt)) / 1000)\<close>, which is
  positive when less than 15 minutes have passed and 0 at exactly 15 minutes. A call more
  than 15 minutes after the last attempt recorded in an entry is allowed and resets the
  entry to count 1 at \<open>now\<close>.
\<close>

theorem checkRateLimit_lockout:
  assumes unseen: "\<not> truthy (table_get h u)"
    and calls: "checkRateLimit_calls [t1, t2, t3, t4, t5] u h = (rs, h5)"
  shows "rs = [Inr \<lparr>allowed = True, remainingTime = None\<rparr>,
               Inr \<lparr>allowed = True, remainingTime = None\<rparr>,
               Inr \<lparr>allowed = True, remainingTime = None\<rparr>,
               Inr \<lparr>allowed = True, remainingTime = None\<rparr>,
               Inr \<lparr>allowed = True, remainingTime = None\<rparr>] \<and>
    (t2 - t1 \<le> 900000 \<and> t3 - t2 \<le> 900000 \<and> t4 - t3 \<le> 900000 \<and> t5 - t4 \<le> 900000 \<longrightarrow>
       h5 = h\<lparr>authAttempts :=
                (authAttempts h)(u \<mapsto> \<lparr>count = Some (Num 5), lastAttempt = Some (Num t5)\<rparr>)\<rparr> \<and>
       (now - t5 \<le> 900000 \<longrightarrow>
          checkRateLimit now u h5 =
            (Inr \<lparr>allowed = False,
                  remainingTime = Some (Num \<lceil>real_of_int (900000 - (now - t5)) / 1000\<rceil>)\<rparr>,
             h5)) \<and>
       (now - t5 < 900000 \<longrightarrow> 0 < \<lceil>real_of_int (900000 - (now - t5)) / 1000\<rceil>) \<and>
       (now - t5 = 900000 \<longrightarrow> \<lceil>real_of_int (900000 - (now - t5)) / 1000\<rceil> = 0)) \<and>
    (\<forall>(h' :: heap) c t.
       authAttempts h' u = Some \<lparr>count = c, lastAttempt = Some (Num t)\<rparr> \<and> now - t > 900000 \<longrightarrow>
       checkRateLimit now u h' =
         (Inr \<lparr>allowed = True, remainingTime = None\<rparr>,
          h'\<lparr>authAttempts :=
                (authAttempts h')(u \<mapsto> \<lparr>count = Some (Num 1), lastAttempt = Some (Num now)\<rparr>)\<rparr>))"
proof (intro conjI impI allI)
  show "rs = [Inr \<lparr>allowed = True, remainingTime = None\<rparr>,
               Inr \<lparr>allowed = True, remainingTime = None\<rparr>,
               Inr \<lparr>allowed = True, remainingTime = None\<rparr>,
               Inr \<lparr>allowed = True, remainingTime = None\<rparr>,
               Inr \<lparr>allowed = True, remainingTime = None\<rparr>]"
    using five_calls(1) [OF unseen, of t1 t2 t3 t4 t5] calls by simp
next
  assume gaps: "t2 - t1 \<le> 900000 \<and> t3 - t2 \<le> 900000 \<and> t4 - t3 \<le> 900000 \<and> t5 - t4 \<le> 900000"
  then show e5: "h5 = h\<lparr>authAttempts :=
                (authAttempts h)(u \<mapsto> \<lparr>count = Some (Num 5), lastAttempt = Some (Num t5)\<rparr>)\<rparr>"
    using five_calls(2) [OF unseen, of t2 t1 t3 t4 t5] calls by simp
  then have entry: "authAttempts h5 u = Some \<lparr>count = Some (Num 5), lastAttempt = Some (Num t5)\<rparr>"
    by simp
  {
    assume "now - t5 \<le> 900000"
    then show "checkRateLimit now u h5 =
            (Inr \<lparr>allowed = False,
                  remainingTime = Some (Num \<lceil>real_of_int (900000 - (now - t5)) / 1000\<rceil>)\<rparr>,
             h5)"
      by (simp add: checkRateLimit_entry [OF entry])
  }
  {
    assume "now - t5 < 900000"
    then have "0 < real_of_int (900000 - (now - t5)) / 1000" by simp
    then show "0 < \<lceil>real_of_int (900000 - (now - t5)) / 1000\<rceil>"
      by (simp only: ceiling_less_iff zero_less_ceiling)
  }
  {
    assume "now - t5 = 900000"
    then show "\<lceil>real_of_int (900000 - (now - t5)) / 1000\<rceil> = 0" by simp
  }
next
  fix h' :: heap and c t
  assume "authAttempts h' u = Some \<lparr>count = c, lastAttempt = Some (Num t)\<rparr> \<and> now - t > 900000"
  then show "checkRateLimit now u h' =
         (Inr \<lparr>allowed = True, remainingTime = None\<rparr>,
          h'\<lparr>authAttempts :=
                (authAttempts h')(u \<mapsto> \<lparr>count = Some (Num 1), lastAttempt = Some (Num now)\<rparr>)\<rparr>)"
    using checkRateLimit_expired [of h' u c t now] by (simp add: first_attempt_def)
qed

text \<open>
  The lockout at concrete times, at the start of the program: five calls one second
  apart, a refused sixth call with 899 seconds to wait, and an allowed call after the
  window.
\<close>

theorem checkRateLimit_lockout_witness:
  "fst (checkRateLimit_calls [0, 1000, 2000, 3000, 4000] (js ''demo_user'') fresh_heap)
     = [Inr \<lparr>allowed = True, remainingTime = None\<rparr>,
        Inr \<lparr>allowed = True, remainingTime = None\<rparr>,
        Inr \<lparr>allowed = True, remainingTime = None\<rparr>,
        Inr \<lparr>allowed = True, remainingTime = None\<rparr>,
        Inr \<lparr>allowed = True, remainingTime = None\<rparr>] \<and>
   checkRateLimit 5000 (js ''demo_user'')
       (snd (checkRateLimit_calls [0, 1000, 2000, 3000, 4000] (js ''demo_user'') fresh_heap))
     = (Inr \<lparr>allowed = False, remainingTime = Some (Num 899)\<rparr>,
        snd (checkRateLimit_calls [0, 1000, 2000, 3000, 4000] (js ''demo_user'') fresh_heap)) \<and>
   checkRateLimit 904001 (js ''demo_user'')
       (snd (checkRateLimit_calls [0, 1000, 2000, 3000, 4000] (js ''demo_user'') fresh_heap))
     = (Inr \<lparr>allowed = True, remainingTime = None\<rparr>,
        fresh_heap\<lparr>authAttempts :=
          [js ''demo_user'' \<mapsto> \<lparr>count = Some (Num 1), lastAttempt = Some (Num 904001)\<rparr>]\<rparr>)"
proof -
  let ?u = "js ''demo_user''"
  let ?run = "checkRateLimit_calls [0, 1000, 2000, 3000, 4000] ?u fresh_heap"
  have unseen: "\<not> truthy (table_get fresh_heap ?u)"
    by (simp add: heap_eval fresh_heap_def js_def)
  have calls: "?run = (fst ?run, snd ?run)" by simp
  note thm1 = checkRateLimit_lockout [of fresh_heap ?u 0 1000 2000 3000 4000 "fst ?run" "snd ?run" 5000, OF unseen calls]
  note thm2 = checkRateLimit_lockout [of fresh_heap ?u 0 1000 2000 3000 4000 "fst ?run" "snd ?run" 904001, OF unseen calls]
  have gaps: "(1000::int) - 0 \<le> 900000 \<and> (2000::int) - 1000 \<le> 900000 \<and> (3000::int) - 2000 \<le> 900000 \<and> (4000::int) - 3000 \<le> 900000"
    by simp
  have a: "fst ?run = [Inr \<lparr>allowed = True, remainingTime = None\<rparr>,
        Inr \<lparr>allowed = True, remainingTime = None\<rparr>,
        Inr \<lparr>allowed = True, remainingTime = None\<rparr>,
        Inr \<lparr>allowed = True, remainingTime = None\<rparr>,
        Inr \<lparr>allowed = True, remainingTime = None\<rparr>]"
    by (rule thm1 [THEN conjunct1])
  note mid = thm1 [THEN conjunct2, THEN conjunct1, THEN mp, OF gaps]
  have e5: "snd ?run = fresh_heap\<lparr>authAttempts :=
                (authAttempts fresh_heap)(?u \<mapsto> \<lparr>count = Some (Num 5), lastAttempt = Some (Num 4000)\<rparr>)\<rparr>"
    by (rule mid [THEN conjunct1])
  have "(5000::int) - 4000 \<le> 900000" by simp
  from mid [THEN conjunct2, THEN conjunct1, THEN mp, OF this]
  have b: "checkRateLimit 5000 ?u (snd ?run) =
      (Inr \<lparr>allowed = False, remainingTime = Some (Num 899)\<rparr>, snd ?run)"
    by simp
  have "authAttempts (snd ?run) ?u = Some \<lparr>count = Some (Num 5), lastAttempt = Some (Num 4000)\<rparr> \<and>
        (904001::int) - 4000 > 900000"
    unfolding e5 by simp
  from thm2 [THEN conjunct2, THEN conjunct2, THEN spec [of _ "snd ?run"],
      THEN spec [of _ "Some (Num 5)"], THEN spec [of _ 4000], THEN mp, OF this]
  have "checkRateLimit 904001 ?u (snd ?run) = (Inr \<lparr>allowed = True, remainingTime = None\<rparr>,
        (snd ?run)\<lparr>authAttempts := (authAttempts (snd ?run))
           (?u \<mapsto> \<lparr>count = Some (Num 1), lastAttempt = Some (Num 904001)\<rparr>)\<rparr>)" .
  then have c: "checkRateLimit 904001 ?u (snd ?run) = (Inr \<lparr>allowed = True, remainingTime = None\<rparr>,
        fresh_heap\<lparr>authAttempts :=
          [?u \<mapsto> \<lparr>count = Some (Num 1), lastAttempt = Some (Num 904001)\<rparr>]\<rparr>)"
    unfolding e5 by (simp add: fresh_heap_def)
  from a b c show ?thesis by blast
qed

text \<open>
  Claim C2 as stated asks for a positive remaining time on every refused sixth call within
  15 minutes, and for a lockout of every identity. At exactly 15 minutes after the fifth
  call the window test \<open>>\<close> does not reset the entry, the call is refused and the
  remaining time is 0. And the identity \<open>constructor\<close> is never refused: the lookup
  finds the function \<open>Object\<close>, whose \<open>count\<close> becomes \<open>NaN\<close>.
\<close>

theorem checkRateLimit_lockout_counterexample:
  "fst (checkRateLimit 900000 (js ''demo_user'')
       (snd (checkRateLimit_calls [0, 0, 0, 0, 0] (js ''demo_user'') fresh_heap)))
     = Inr \<lparr>allowed = False, remainingTime = Some (Num 0)\<rparr> \<and>
   fst (checkRateLimit_calls [0, 1000, 2000, 3000, 4000, 5000] (js ''constructor'') fresh_heap)
     = [Inr \<lparr>allowed = True, remainingTime = None\<rparr>,
        Inr \<lparr>allowed = True, remainingTime = None\<rparr>,
        Inr \<lparr>allowed = True, remainingTime = None\<rparr>,
        Inr \<lparr>allowed = True, remainingTime = None\<rparr>,
        Inr \<lparr>allowed = True, remainingTime = None\<rparr>,
        Inr \<lparr>allowed = True, remainingTime = None\<rparr>]"
  by (simp add: checkRateLimit_def heap_eval number_eval fresh_heap_def js_def)

text \<open>
  Claim C8, as amended. For an identity whose lookup in the table gives nothing, the call
  is allowed and creates the entry with count 1 at \<open>now\<close>. For an identity with an
  entry of its own: more than 15 minutes after the recorded attempt the call is allowed
  and resets the entry to count 1 at \<open>now\<close>; otherwise, with a count of at least 5, the
  call is refused and returns before any update, and with a smaller count it is allowed,
  adds one to the count and records \<open>now\<close>. In each case nothing else in the heap
  changes: not the entry of another identity, and not \<open>Object.prototype\<close>.
\<close>

theorem checkRateLimit_effect:
  "(\<not> truthy (table_get h u) \<longrightarrow>
      checkRateLimit now u h =
        (Inr \<lparr>allowed = True, remainingTime = None\<rparr>,
         h\<lparr>authAttempts :=
              (authAttempts h)(u \<mapsto> \<lparr>count = Some (Num 1), lastAttempt = Some (Num now)\<rparr>)\<rparr>)) \<and>
   (\<forall>c t. authAttempts h u = Some \<lparr>count = Some (Num c), lastAttempt = Some (Num t)\<rparr> \<longrightarrow>
      checkRateLimit now u h =
        (if now - t > 900000 then
           (Inr \<lparr>allowed = True, remainingTime = None\<rparr>,
            h\<lparr>authAttempts :=
                 (authAttempts h)(u \<mapsto> \<lparr>count = Some (Num 1), lastAttempt = Some (Num now)\<rparr>)\<rparr>)
         else if c \<ge> 5 then
           (Inr \<lparr>allowed = False,
                 remainingTime = Some (Num \<lceil>real_of_int (900000 - (now - t)) / 1000\<rceil>)\<rparr>, h)
         else
           (Inr \<lparr>allowed = True, remainingTime = None\<rparr>,
            h\<lparr>authAttempts :=
                 (authAttempts h)
                   (u \<mapsto> \<lparr>count = Some (Num (c + 1)), lastAttempt = Some (Num now)\<rparr>)\<rparr>)))"
proof (intro conjI impI allI)
  assume "\<not> truthy (table_get h u)"
  then show "checkRateLimit now u h =
        (Inr \<lparr>allowed = True, remainingTime = None\<rparr>,
         h\<lparr>authAttempts :=
              (authAttempts h)(u \<mapsto> \<lparr>count = Some (Num 1), lastAttempt = Some (Num now)\<rparr>)\<rparr>)"
    by (simp add: checkRateLimit_unseen first_attempt_def)
next
  fix c t
  assume "authAttempts h u = Some \<lparr>count = Some (Num c), lastAttempt = Some (Num t)\<rparr>"
  from checkRateLimit_entry [OF this, of now]
  show "checkRateLimit now u h =
        (if now - t > 900000 then
           (Inr \<lparr>allowed = True, remainingTime = None\<rparr>,
            h\<lparr>authAttempts :=
                 (authAttempts h)(u \<mapsto> \<lparr>count = Some (Num 1), lastAttempt = Some (Num now)\<rparr>)\<rparr>)
         else if c \<ge> 5 then
           (Inr \<lparr>allowed = False,
                 remainingTime = Some (Num \<lceil>real_of_int (900000 - (now - t)) / 1000\<rceil>)\<rparr>, h)
         else
           (Inr \<lparr>allowed = True, remainingTime = None\<rparr>,
            h\<lparr>authAttempts :=
                 (authAttempts h)
                   (u \<mapsto> \<lparr>count = Some (Num (c + 1)), lastAttempt = Some (Num now)\<rparr>)\<rparr>))"
    by (simp add: first_attempt_def)
qed

text \<open>
  A first call at the start of the program creates the entry, and a second call one
  second later counts 2.
\<close>

theorem checkRateLimit_effect_witness:
  "checkRateLimit 5000 (js ''demo_user'') fresh_heap =
     (Inr \<lparr>allowed = True, remainingTime = None\<rparr>,
      fresh_heap\<lparr>authAttempts :=
        [js ''demo_user'' \<mapsto> \<lparr>count = Some (Num 1), lastAttempt = Some (Num 5000)\<rparr>]\<rparr>) \<and>
   checkRateLimit 6000 (js ''demo_user'')
      (fresh_heap\<lparr>authAttempts :=
        [js ''demo_user'' \<mapsto> \<lparr>count = Some (Num 1), lastAttempt = Some (Num 5000)\<rparr>]\<rparr>) =
     (Inr \<lparr>allowed = True, remainingTime = None\<rparr>,
      fresh_heap\<lparr>authAttempts :=
        [js ''demo_user'' \<mapsto> \<lparr>count = Some (Num 2), lastAttempt = Some (Num 6000)\<rparr>]\<rparr>)"
proof -
  let ?u = "js ''demo_user''"
  let ?h1 = "fresh_heap\<lparr>authAttempts :=
        [?u \<mapsto> \<lparr>count = Some (Num 1), lastAttempt = Some (Num 5000)\<rparr>]\<rparr>"
  have unseen: "\<not> truthy (table_get fresh_heap ?u)"
    by (simp add: heap_eval fresh_heap_def js_def)
  from checkRateLimit_effect [of fresh_heap ?u 5000, THEN conjunct1, THEN mp, OF unseen]
  have 1: "checkRateLimit 5000 ?u fresh_heap = (Inr \<lparr>allowed = True, remainingTime = None\<rparr>, ?h1)"
    by (simp add: fresh_heap_def)
  have e: "authAttempts ?h1 ?u = Some \<lparr>count = Some (Num 1), lastAttempt = Some (Num 5000)\<rparr>"
    by simp
  from checkRateLimit_effect [of ?h1 ?u 6000, THEN conjunct2, THEN spec, THEN spec, THEN mp, OF e]
  have 2: "checkRateLimit 6000 ?u ?h1 =
     (Inr \<lparr>allowed = True, remainingTime = None\<rparr>,
      fresh_heap\<lparr>authAttempts :=
        [?u \<mapsto> \<lparr>count = Some (Num 2), lastAttempt = Some (Num 6000)\<rparr>]\<rparr>)"
    by (simp add: fresh_heap_def)
  from 1 2 show ?thesis by (rule conjI)
qed

text \<open>
  Claim C8 as stated makes every call, for every identity, change the entry of the
  identity. The sixth call below is refused and leaves the heap, with the entry (count 5,
  last attempt 4000), as it was. And a call for \<open>constructor\<close> is allowed and creates no
  entry: it writes to the function \<open>Object\<close>.
\<close>

theorem checkRateLimit_locked_counterexample:
  "checkRateLimit 5000 (js ''demo_user'')
      (fresh_heap\<lparr>authAttempts :=
         [js ''demo_user'' \<mapsto> \<lparr>count = Some (Num 5), lastAttempt = Some (Num 4000)\<rparr>]\<rparr>)
     = (Inr \<lparr>allowed = False, remainingTime = Some (Num 899)\<rparr>,
        fresh_heap\<lparr>authAttempts :=
          [js ''demo_user'' \<mapsto> \<lparr>count = Some (Num 5), lastAttempt = Some (Num 4000)\<rparr>]\<rparr>) \<and>
   snd (checkRateLimit_calls [0, 1000, 2000, 3000, 4000] (js ''demo_user'') fresh_heap)
     = fresh_heap\<lparr>authAttempts :=
         [js ''demo_user'' \<mapsto> \<lparr>count = Some (Num 5), lastAttempt = Some (Num 4000)\<rparr>]\<rparr> \<and>
   checkRateLimit 5000 (js ''constructor'') fresh_heap
     = (Inr \<lparr>allowed = True, remainingTime = None\<rparr>,
        fresh_heap\<lparr>Function_slots :=
          (\<lambda>name. no_slots)
            (js ''constructor'' := \<lparr>count = Some NaN, lastAttempt = Some (Num 5000)\<rparr>)\<rparr>)"
  by (simp add: checkRateLimit_def heap_eval number_eval fresh_heap_def js_def)


section \<open>Properties of the codec\<close>

subsection \<open>\<open>atob\<close> inverts \<open>btoa\<close>\<close>

lemma b64_index_char: "n < 64 \<Longrightarrow> b64_index (b64_char n) = Some n"
  by (auto simp: b64_index_def b64_char_def)

lemma b64_char_not_pad: "n < 64 \<Longrightarrow> b64_char n \<noteq> 61"
  by (auto simp: b64_char_def)

lemma b64_char_not_space: "n < 64 \<Longrightarrow> \<not> ascii_whitespace (b64_char n)"
  by (auto simp: b64_char_def ascii_whitespace_def)

lemma b64_char_ascii: "n < 64 \<Longrightarrow> 43 \<le> b64_char n \<and> b64_char n \<le> 122"
  by (auto simp: b64_char_def)

lemma sextets_bound: "list_all (\<lambda>c. c < 256) s \<Longrightarrow> list_all (\<lambda>x. x < 64) (sextets s)"
proof (induction s rule: sextets.induct)
  case (1 a b c rest)
  then show ?case by simp (linarith?)
next
  case (2 a b)
  then show ?case by simp (linarith?)
next
  case (3 a)
  then show ?case by simp (linarith?)
qed simp

lemma length_sextets:
  "length (sextets s) = 4 * (length s div 3) + (if length s mod 3 = 0 then 0 else length s mod 3 + 1)"
  by (induction s rule: sextets.induct) simp_all

lemma octets_sextets: "list_all (\<lambda>c. c < 256) s \<Longrightarrow> octets (sextets s) = s"
proof (induction s rule: sextets.induct)
  case (1 a b c rest)
  then have "b < 256" "c < 256" "octets (sextets rest) = rest" by simp_all
  then show ?case by simp
next
  case (2 a b)
  then have "b < 256" by simp
  then show ?case by simp
qed simp_all

lemma those_index_char:
  "list_all (\<lambda>x. x < 64) xs \<Longrightarrow> those (map b64_index (map b64_char xs)) = Some xs"
  by (induction xs) (simp_all add: b64_index_char)

lemma filter_space_encoded:
  "list_all (\<lambda>x. x < 64) xs \<Longrightarrow>
   filter (\<lambda>c. \<not> ascii_whitespace c) (map b64_char xs @ replicate k 61) = map b64_char xs @ replicate k 61"
proof -
  have "\<not> ascii_whitespace 61" by (simp add: ascii_whitespace_def)
  then show ?thesis if "list_all (\<lambda>x. x < 64) xs"
    using that by (induction xs) (simp_all add: b64_char_not_space)
qed

lemma strip_padding_encoded:
  assumes "list_all (\<lambda>x. x < 64) xs" "k \<le> 2" "(length xs + k) mod 4 = 0"
  shows "strip_padding (map b64_char xs @ replicate k 61) = map b64_char xs"
proof -
  consider "k = 0" | "k = 1" | "k = 2" using assms(2) by linarith
  then show ?thesis
  proof cases
    case 1
    show ?thesis
    proof (cases "rev xs")
      case Nil
      then show ?thesis using 1 by (simp add: strip_padding_def)
    next
      case (Cons x r)
      then have "x \<in> set xs" by (metis list.set_intros(1) set_rev)
      then have "x < 64" using assms(1) by (simp add: list_all_iff)
      then show ?thesis using 1 Cons
        by (simp add: strip_padding_def rev_map b64_char_not_pad split: list.split)
    qed
  next
    case 2
    then have "xs \<noteq> []" using assms(3) by auto
    then obtain x r where Cons: "rev xs = x # r" by (cases "rev xs") auto
    then have "x \<in> set xs" by (metis list.set_intros(1) set_rev)
    then have "x < 64" using assms(1) by (simp add: list_all_iff)
    have "map b64_char xs = rev (map b64_char (x # r))"
      using Cons by (metis rev_map rev_rev_ident)
    then show ?thesis using 2 Cons assms(3) \<open>x < 64\<close>
      by (simp add: strip_padding_def rev_map b64_char_not_pad)
  next
    case 3
    then show ?thesis using assms(3)
      by (simp add: strip_padding_def rev_map numeral_2_eq_2)
  qed
qed

lemma atob_btoa:
  assumes "list_all (\<lambda>c. c < 256) s"
  shows "\<exists>e. btoa s = Inr e \<and> atob e = Inr s \<and> (s \<noteq> [] \<longrightarrow> e \<noteq> []) \<and> list_all (\<lambda>c. c < 256) e"
proof -
  let ?k = "(3 - length s mod 3) mod 3"
  let ?e = "map b64_char (sextets s) @ replicate ?k 61"
  have no: "\<not> list_ex (\<lambda>c. c > 255) s"
    using assms by (auto simp: list_all_iff list_ex_iff)
  then have enc: "btoa s = Inr ?e" by (simp add: btoa_def)
  have sx: "list_all (\<lambda>x. x < 64) (sextets s)" using assms by (rule sextets_bound)
  have k2: "?k \<le> 2" by linarith
  have m3: "length s mod 3 = 0 \<or> length s mod 3 = 1 \<or> length s mod 3 = 2" by linarith
  have len: "(length (sextets s) + ?k) mod 4 = 0"
    using m3 by (auto simp: length_sextets)
  have len1: "length (sextets s) mod 4 \<noteq> 1"
    using m3 by (auto simp: length_sextets)
  have dec: "atob ?e = Inr s"
    unfolding atob_def filter_space_encoded [OF sx] strip_padding_encoded [OF sx k2 len] Let_def
      those_index_char [OF sx]
    using len1 by (simp add: octets_sextets [OF assms])
  have ne: "s \<noteq> [] \<longrightarrow> ?e \<noteq> []"
    by (cases s rule: sextets.cases) simp_all
  have "list_all (\<lambda>c. c < 256) (map b64_char (sextets s))"
    using sx b64_char_ascii by (fastforce simp: list_all_iff)
  then have lat: "list_all (\<lambda>c. c < 256) ?e" by (auto simp: list_all_iff)
  from enc dec ne lat show ?thesis by blast
qed

subsection \<open>\<open>decrypt\<close> inverts \<open>encrypt\<close>\<close>

lemma xor_nat_bound:
  fixes a b :: nat
  assumes "a < 2 ^ n" "b < 2 ^ n"
  shows "a XOR b < 2 ^ n"
proof -
  have "take_bit n (a XOR b) = a XOR b"
    using assms by (simp add: take_bit_xor take_bit_nat_eq_self)
  then show ?thesis by (simp only: take_bit_nat_eq_self_iff)
qed

lemma keyCodeAt_bound:
  "list_all (\<lambda>c. c < m) key \<Longrightarrow> 0 < m \<Longrightarrow> keyCodeAt key i < m"
  by (auto simp: keyCodeAt_def list_all_length)

lemma xor_loop_latin1:
  assumes "latin1 plain" "latin1 key"
  shows "latin1 (xor_loop i plain key)"
  using assms(1)
proof (induction plain arbitrary: i)
  case Nil
  then show ?case by (simp add: latin1_def)
next
  case (Cons c rest)
  have k: "keyCodeAt key i < 2 ^ 8"
    using keyCodeAt_bound [of 256 key i] assms(2) by (simp add: latin1_def)
  have c: "c < 2 ^ 8" using Cons.prems by (simp add: latin1_def)
  have "c XOR keyCodeAt key i < 2 ^ 8" by (rule xor_nat_bound [OF c k])
  then have "fromCharCode (c XOR keyCodeAt key i) < 256"
    by (simp add: fromCharCode_def)
  moreover have "latin1 (xor_loop (Suc i) rest key)"
    using Cons by (simp add: latin1_def)
  ultimately show ?case by (simp add: latin1_def)
qed

lemma xor_loop_involution:
  assumes "latin1 plain" "latin1 key"
  shows "xor_loop i (xor_loop i plain key) key = plain"
  using assms(1)
proof (induction plain arbitrary: i)
  case Nil
  then show ?case by simp
next
  case (Cons c rest)
  have k: "keyCodeAt key i < 2 ^ 8"
    using keyCodeAt_bound [of 256 key i] assms(2) by (simp add: latin1_def)
  have c: "c < 2 ^ 8" using Cons.prems by (simp add: latin1_def)
  have "c XOR keyCodeAt key i < 2 ^ 8" by (rule xor_nat_bound [OF c k])
  then have f: "fromCharCode (c XOR keyCodeAt key i) = c XOR keyCodeAt key i"
    by (simp add: fromCharCode_def)
  have "(c XOR keyCodeAt key i) XOR keyCodeAt key i = c"
    by (simp add: xor.assoc)
  moreover have "fromCharCode c = c" using c by (simp add: fromCharCode_def)
  ultimately show ?case using Cons f by (simp add: latin1_def)
qed

lemma xor_loop_length: "length (xor_loop i plain key) = length plain"
  by (induction plain arbitrary: i) simp_all

lemma decrypt_encrypt_latin1:
  assumes "latin1 plain" "latin1 key"
  shows "\<exists>c. encrypt plain key = Inr c \<and> decrypt c key = plain \<and> latin1 c \<and>
             (plain \<noteq> [] \<longrightarrow> c \<noteq> [])"
proof -
  have "list_all (\<lambda>c. c < 256) (xor_loop 0 plain key)"
    using xor_loop_latin1 [OF assms] by (simp add: latin1_def)
  from atob_btoa [OF this] obtain e where
    e: "btoa (xor_loop 0 plain key) = Inr e" "atob e = Inr (xor_loop 0 plain key)"
       "xor_loop 0 plain key \<noteq> [] \<longrightarrow> e \<noteq> []" "list_all (\<lambda>c. c < 256) e"
    by blast
  have "plain \<noteq> [] \<longrightarrow> xor_loop 0 plain key \<noteq> []"
    by (cases plain) simp_all
  then show ?thesis
    using e xor_loop_involution [OF assms]
    by (simp add: encrypt_def decrypt_def latin1_def)
qed

lemma printable_ascii_latin1: "printable_ascii s \<Longrightarrow> latin1 s"
  by (auto simp: printable_ascii_def latin1_def list_all_iff)

text \<open>
  Claim C3, as amended. For every printable-ASCII plaintext and every non-empty key whose
  characters are all below 256, \<open>encrypt\<close> returns a ciphertext and \<open>decrypt\<close> of it
  under the same key is the plaintext.
\<close>

theorem decrypt_encrypt:
  assumes "printable_ascii v" and "k \<noteq> []" and "latin1 k"
  shows "\<exists>c. encrypt v k = Inr c \<and> decrypt c k = v"
  using decrypt_encrypt_latin1 [OF printable_ascii_latin1 [OF assms(1)] assms(3)] by blast

text \<open>The round trip of \<open>hello world\<close> under a key that \<open>getEncryptionKey\<close> makes.\<close>

theorem decrypt_encrypt_witness:
  "\<exists>c. encrypt (js ''hello world'') (js ''RN_APP_loyw3v28'') = Inr c \<and>
       decrypt c (js ''RN_APP_loyw3v28'') = js ''hello world''"
proof -
  have 1: "printable_ascii (js ''hello world'')" by (simp add: printable_ascii_def js_def)
  have 2: "js ''RN_APP_loyw3v28'' \<noteq> []" by (simp add: js_def)
  have 3: "latin1 (js ''RN_APP_loyw3v28'')" by (simp add: latin1_def js_def)
  show ?thesis by (rule decrypt_encrypt [OF 1 2 3])
qed

text \<open>
  Claim C3 as stated lets the key be any non-empty string. Under the one-character key
  U+0100 the plaintext \<open>a\<close> becomes the code unit 353, and \<open>btoa\<close> throws: \<open>encrypt\<close>
  returns no ciphertext to decrypt.
\<close>

theorem encrypt_wide_key_counterexample:
  "printable_ascii (js ''a'') \<and> [256] \<noteq> ([] :: jsstring) \<and>
   encrypt (js ''a'') [256] = Inl InvalidCharacterError"
  by (simp add: printable_ascii_def js_def encrypt_def btoa_def keyCodeAt_def fromCharCode_def)

subsection \<open>The digest\<close>

lemma replicate_two: "replicate 2 x = [x, x]"
  by (simp add: numeral_2_eq_2)

lemma ToInt32_sint: "ToInt32 x = sint (word_of_int x :: 32 word)"
  by (simp add: ToInt32_def sint_uint signed_take_bit_eq_take_bit_shift take_bit_eq_mod
        uint_word_of_int mod_simps)

lemma ToInt32_range: "- (2 ^ 31) \<le> ToInt32 x \<and> ToInt32 x < 2 ^ 31"
  by (simp add: ToInt32_def)

lemma word_of_int_ToInt32: "(word_of_int (ToInt32 x) :: 32 word) = word_of_int x"
  by (simp add: ToInt32_sint)

lemma hash_step_word:
  "ToInt32 (ToInt32 (sint w * 32) - sint w + int c) = sint ((w :: 32 word) * 31 + word_of_nat c)"
proof -
  have "(word_of_int (ToInt32 (sint w * 32) - sint w + int c) :: 32 word)
          = word_of_int (ToInt32 (sint w * 32)) - word_of_int (sint w) + word_of_int (int c)"
    by simp
  also have "\<dots> = w * 32 - w + word_of_nat c"
    by (simp add: word_of_int_ToInt32)
  also have "\<dots> = w * 31 + word_of_nat c" by simp
  finally show ?thesis by (simp add: ToInt32_sint mult.commute)
qed

lemma hash_loop_word:
  "hash_loop s (sint (w :: 32 word)) =
     sint (foldl (\<lambda>hash charCode. hash * 31 + word_of_nat charCode) w s)"
  by (induction s arbitrary: w) (simp_all add: hash_step_word)

lemma hash_loop_spec:
  "hash_loop s 0 = sint (foldl (\<lambda>hash charCode. hash * 31 + word_of_nat charCode) (0 :: 32 word) s)"
  using hash_loop_word [of s 0] by simp

lemma hash_loop_range:
  "s \<noteq> [] \<Longrightarrow> - (2 ^ 31) \<le> hash_loop s h \<and> hash_loop s h < 2 ^ 31"
proof (induction s arbitrary: h)
  case Nil
  then show ?case by simp
next
  case (Cons c s)
  show ?case
  proof (cases s)
    case Nil
    then show ?thesis using ToInt32_range by simp
  next
    case (Cons d t)
    then show ?thesis using Cons.IH by simp
  qed
qed

lemma digit_char_ascii: "d < 36 \<Longrightarrow> 48 \<le> digit_char d \<and> digit_char d \<le> 122"
  by (simp add: digit_char_def)

lemma digits_ascii:
  "2 \<le> radix \<Longrightarrow> radix \<le> 36 \<Longrightarrow> list_all (\<lambda>c. 48 \<le> c \<and> c \<le> 122) (digits radix n)"
proof (induction radix n rule: digits.induct)
  case (1 radix n)
  show ?case
  proof (cases "n < radix")
    case True
    then show ?thesis using 1(3) digit_char_ascii [of n]
      by (subst digits.simps) simp
  next
    case False
    have "n mod radix < 36" using 1(2,3)
      by (meson less_le_trans mod_less_divisor zero_less_numeral less_le_trans pos2)
    then show ?thesis using False 1 digit_char_ascii [of "n mod radix"]
      by (subst digits.simps) simp
  qed
qed

lemma digits_nonempty: "digits radix n \<noteq> []"
  by (subst digits.simps) simp

lemma Number_toString_ascii:
  "2 \<le> radix \<Longrightarrow> radix \<le> 36 \<Longrightarrow> list_all (\<lambda>c. 45 \<le> c \<and> c \<le> 122) (Number_toString n radix)"
  using digits_ascii [of radix "nat (- n)"] digits_ascii [of radix "nat n"]
  by (force simp: Number_toString_def list_all_iff)

lemma Number_toString_latin1:
  "2 \<le> radix \<Longrightarrow> radix \<le> 36 \<Longrightarrow> list_all (\<lambda>c. c < 256) (Number_toString n radix)"
  using Number_toString_ascii [of radix n] by (auto simp: list_all_iff)

lemma Number_toString_nonempty: "Number_toString n radix \<noteq> []"
  by (simp add: Number_toString_def digits_nonempty)

lemma hashPassword_succeeds:
  "\<exists>digest. hashPassword password = Inr digest \<and> digest \<noteq> [] \<and> latin1 digest"
proof (cases "password = []")
  case True
  then show ?thesis
    using Number_toString_latin1 [of 10 0]
    by (simp add: hashPassword_def Number_toString_nonempty latin1_def)
next
  case False
  let ?s = "Number_toString (hash_loop password 0 + int (length salt)) 36"
  have "list_all (\<lambda>c. c < 256) ?s" by (rule Number_toString_latin1) simp_all
  from atob_btoa [OF this] show ?thesis
    using False by (auto simp: hashPassword_def Number_toString_nonempty latin1_def)
qed

text \<open>
  Claim C5, as amended. For every non-empty password \<open>hashPassword\<close> returns a digest, and
  it is the one the specification words: the characters folded with
  \<open>hash * 31 + charCode\<close> in 32-bit signed arithmetic, plus 13, in base 36, base64-encoded.
  For the empty password the guard on the first line returns the string \<open>0\<close> instead. The
  function reads nothing but its argument, so equal passwords have equal digests.
\<close>

theorem hashPassword_digest:
  "(password \<noteq> [] \<longrightarrow>
      hashPassword password = spec_digest password \<and>
      (\<exists>digest. hashPassword password = Inr digest)) \<and>
   hashPassword [] = Inr (js ''0'')"
proof (intro conjI impI)
  assume "password \<noteq> []"
  then show "hashPassword password = spec_digest password"
    by (simp add: hashPassword_def spec_digest_def hash_loop_spec salt_def js_def)
  show "\<exists>digest. hashPassword password = Inr digest"
    using hashPassword_succeeds by blast
next
  show "hashPassword [] = Inr (js ''0'')"
    by (simp add: hashPassword_def Number_toString_def digits.simps digit_char_def js_def)
qed

text \<open>The digest of the demo password, by both definitions.\<close>

theorem hashPassword_digest_witness:
  "hashPassword (js ''SecurePass123!'') = spec_digest (js ''SecurePass123!'') \<and>
   hashPassword (js ''SecurePass123!'') = Inr (js ''LTRyd3JyMA=='')"
proof -
  have ne: "js ''SecurePass123!'' \<noteq> []" by (simp add: js_def)
  have 1: "hashPassword (js ''SecurePass123!'') = spec_digest (js ''SecurePass123!'')"
    using hashPassword_digest [of "js ''SecurePass123!''", THEN conjunct1, THEN mp, OF ne]
    by (rule conjunct1)
  have 2: "hashPassword (js ''SecurePass123!'') = Inr (js ''LTRyd3JyMA=='')"
    by (simp add: hashPassword_def js_def ToInt32_def Number_toString_def digits.simps
          digit_char_def btoa_def b64_char_def salt_def replicate_two)
  from 1 2 show ?thesis by simp
qed

text \<open>
  Claim C5 as stated gives the base64 of the base-36 number for every password. For the
  empty password that would be \<open>ZA==\<close> (the base64 of \<open>d\<close>, 13 in base 36); the code
  returns \<open>0\<close>.
\<close>

theorem hashPassword_empty_counterexample:
  "hashPassword [] = Inr (js ''0'') \<and> spec_digest [] = Inr (js ''ZA=='')"
  by (simp add: hashPassword_def spec_digest_def Number_toString_def digits.simps digit_char_def
        js_def btoa_def b64_char_def replicate_two)

subsection \<open>User ids\<close>

lemma digit_char_inj: "a < 36 \<Longrightarrow> b < 36 \<Longrightarrow> digit_char a = digit_char b \<Longrightarrow> a = b"
  by (auto simp: digit_char_def split: if_splits)

lemma digits_small: "n < radix \<Longrightarrow> digits radix n = [digit_char n]"
  by (subst digits.simps) simp

lemma digits_big:
  "\<not> n < radix \<Longrightarrow> 2 \<le> radix \<Longrightarrow>
   digits radix n = digits radix (n div radix) @ [digit_char (n mod radix)]"
  by (subst digits.simps) simp

lemma digits_big_length: "\<not> n < radix \<Longrightarrow> 2 \<le> radix \<Longrightarrow> 2 \<le> length (digits radix n)"
proof -
  assume a: "\<not> n < radix" "2 \<le> radix"
  have "1 \<le> length (digits radix (n div radix))"
    using digits_nonempty [of radix "n div radix"]
    by (cases "digits radix (n div radix)") simp_all
  then show ?thesis unfolding digits_big [OF a] by simp
qed

lemma digits_inj:
  "2 \<le> radix \<Longrightarrow> radix \<le> 36 \<Longrightarrow> digits radix n = digits radix m \<Longrightarrow> n = m"
proof (induction radix n arbitrary: m rule: digits.induct)
  case (1 radix n)
  note two = \<open>2 \<le> radix\<close> and top = \<open>radix \<le> 36\<close> and eq = \<open>digits radix n = digits radix m\<close>
  have r: "0 < radix" using two by simp
  have modn: "n mod radix < 36"
    using mod_less_divisor [OF r, of n] top by linarith
  have modm: "m mod radix < 36"
    using mod_less_divisor [OF r, of m] top by linarith
  show ?case
  proof (cases "n < radix")
    case n: True
    show ?thesis
    proof (cases "m < radix")
      case True
      have "[digit_char n] = [digit_char m]"
        using eq unfolding digits_small [OF n] digits_small [OF True] .
      then have "digit_char n = digit_char m" by simp
      moreover have "n < 36" "m < 36" using n True top by linarith+
      ultimately show ?thesis by (rule digit_char_inj [rotated 2])
    next
      case False
      have "2 \<le> length (digits radix m)" using False two by (rule digits_big_length)
      moreover have "length (digits radix n) = 1" unfolding digits_small [OF n] by simp
      ultimately show ?thesis using eq by simp
    qed
  next
    case n: False
    show ?thesis
    proof (cases "m < radix")
      case True
      have "2 \<le> length (digits radix n)" using n two by (rule digits_big_length)
      moreover have "length (digits radix m) = 1" unfolding digits_small [OF True] by simp
      ultimately show ?thesis using eq by simp
    next
      case False
      have "digits radix (n div radix) @ [digit_char (n mod radix)]
                 = digits radix (m div radix) @ [digit_char (m mod radix)]"
        using eq unfolding digits_big [OF n two] digits_big [OF False two] .
      then have d: "digits radix (n div radix) = digits radix (m div radix)"
        and c: "digit_char (n mod radix) = digit_char (m mod radix)" by simp_all
      have nn: "\<not> (n < radix \<or> radix < 2)" using n two by simp
      have q: "n div radix = m div radix"
        by (rule "1.IH" [OF nn two top d])
      have p: "n mod radix = m mod radix"
        by (rule digit_char_inj [OF modn modm c])
      have "n = n div radix * radix + n mod radix" by simp
      also have "\<dots> = m div radix * radix + m mod radix" unfolding q p ..
      also have "\<dots> = m" by simp
      finally show ?thesis .
    qed
  qed
qed

lemma digits_no_minus: "2 \<le> radix \<Longrightarrow> radix \<le> 36 \<Longrightarrow> hd (digits radix n) \<noteq> 45"
proof -
  assume a: "2 \<le> radix" "radix \<le> 36"
  have "list_all (\<lambda>c. 48 \<le> c \<and> c \<le> 122) (digits radix n)" using a by (rule digits_ascii)
  then show ?thesis using digits_nonempty [of radix n]
    by (cases "digits radix n") simp_all
qed

lemma Number_toString_inj:
  assumes "2 \<le> radix" "radix \<le> 36" "Number_toString n radix = Number_toString m radix"
  shows "n = m"
proof -
  have h: "\<And>a b. 45 # digits radix a \<noteq> digits radix b"
  proof
    fix a b assume "45 # digits radix a = digits radix b"
    then have "hd (digits radix b) = 45" by (metis list.sel(1))
    then show False using digits_no_minus [OF assms(1,2), of b] by simp
  qed
  show ?thesis
  proof (cases "n < 0"; cases "m < 0")
    assume "n < 0" "m < 0"
    then have "digits radix (nat (- n)) = digits radix (nat (- m))"
      using assms(3) by (simp add: Number_toString_def)
    then have "nat (- n) = nat (- m)" by (rule digits_inj [OF assms(1,2)])
    then show ?thesis using \<open>n < 0\<close> \<open>m < 0\<close> by simp
  next
    assume "n < 0" "\<not> m < 0"
    then show ?thesis using assms(3) h by (simp add: Number_toString_def)
  next
    assume "\<not> n < 0" "m < 0"
    then show ?thesis using assms(3) h [of "nat (- m)" "nat n"] by (simp add: Number_toString_def)
  next
    assume "\<not> n < 0" "\<not> m < 0"
    then have "digits radix (nat n) = digits radix (nat m)"
      using assms(3) by (simp add: Number_toString_def)
    then have "nat n = nat m" by (rule digits_inj [OF assms(1,2)])
    then show ?thesis using \<open>\<not> n < 0\<close> \<open>\<not> m < 0\<close> by simp
  qed
qed

lemma digits_length: "2 \<le> radix \<Longrightarrow> n < radix ^ k \<Longrightarrow> 0 < k \<Longrightarrow> length (digits radix n) \<le> k"
proof (induction k arbitrary: n)
  case 0
  then show ?case by simp
next
  case (Suc k)
  show ?case
  proof (cases "n < radix")
    case True
    then show ?thesis by (simp add: digits.simps [of radix n])
  next
    case False
    then have k: "0 < k" using Suc.prems by (cases k) simp_all
    have "n div radix < radix ^ k"
      using Suc.prems by (simp add: less_mult_imp_div_less mult.commute)
    then have "length (digits radix (n div radix)) \<le> k"
      using Suc.IH [of "n div radix"] Suc.prems(1) k by simp
    then show ?thesis using False Suc.prems(1) by (simp add: digits.simps [of radix n])
  qed
qed

lemma btoa_inj:
  assumes "latin1 a" "latin1 b" "btoa a = btoa b"
  shows "a = b"
proof -
  have la: "list_all (\<lambda>c. c < 256) a" using assms(1) unfolding latin1_def .
  have lb: "list_all (\<lambda>c. c < 256) b" using assms(2) unfolding latin1_def .
  from atob_btoa [OF la] obtain e where e: "btoa a = Inr e" "atob e = Inr a" by blast
  from atob_btoa [OF lb] obtain f where f: "btoa b = Inr f" "atob f = Inr b" by blast
  have "e = f" using e(1) f(1) assms(3) by simp
  then have "Inr a = (Inr b :: exn + jsstring)" using e(2) f(2) by simp
  then show ?thesis by simp
qed

lemma btoa_length:
  assumes "btoa s = Inr e"
  shows "length e = 4 * ((length s + 2) div 3)"
proof -
  have e: "e = map b64_char (sextets s) @ replicate ((3 - length s mod 3) mod 3) 61"
    using assms by (simp add: btoa_def split: if_splits)
  consider (0) "length s mod 3 = 0" | (1) "length s mod 3 = 1" | (2) "length s mod 3 = 2"
    by linarith
  then show ?thesis
  proof cases
    case 0
    then have "length e = 4 * (length s div 3)" unfolding e by (simp add: length_sextets)
    moreover have "(length s + 2) div 3 = length s div 3" using 0 by presburger
    ultimately show ?thesis by simp
  next
    case 1
    then have "length e = 4 * (length s div 3) + 4" unfolding e by (simp add: length_sextets)
    moreover have "(length s + 2) div 3 = length s div 3 + 1" using 1 by presburger
    ultimately show ?thesis by simp
  next
    case 2
    then have "length e = 4 * (length s div 3) + 4" unfolding e by (simp add: length_sextets)
    moreover have "(length s + 2) div 3 = length s div 3 + 1" using 2 by presburger
    ultimately show ?thesis by simp
  qed
qed

lemma hashPassword_nonempty_form:
  assumes "password \<noteq> []"
  shows "\<exists>digest. hashPassword password = Inr digest \<and> length digest \<le> 12 \<and>
           btoa (Number_toString (hash_loop password 0 + 13) 36) = Inr digest"
proof -
  let ?h = "hash_loop password 0 + 13"
  let ?s = "Number_toString ?h 36"
  from hashPassword_succeeds [of password] obtain digest where
    d: "hashPassword password = Inr digest" by blast
  then have b: "btoa ?s = Inr digest"
    using assms by (simp add: hashPassword_def salt_def js_def)
  have range: "- (2 ^ 31) \<le> hash_loop password 0 \<and> hash_loop password 0 < 2 ^ 31"
    using hash_loop_range [OF assms] .
  have "\<bar>?h\<bar> < 2176782336" using range by (simp add: abs_if)
  then have "nat \<bar>?h\<bar> < 36 ^ 6" by simp
  then have "length (digits 36 (nat \<bar>?h\<bar>)) \<le> 6"
    using digits_length [of 36 "nat \<bar>?h\<bar>" 6] by simp
  then have "length ?s \<le> 7"
    by (cases "?h < 0") (simp_all add: Number_toString_def abs_if)
  then have "length digest \<le> 12"
    using btoa_length [OF b] by simp
  with d b show ?thesis by blast
qed

text \<open>
  Claim C9, as amended. \<open>generateSecureUserId\<close> always returns an id, and the id is a
  function of the user name and of the clock reading alone: two calls with the same user
  name return different ids exactly when the 32-bit hashes of the user name followed by the
  decimal clock reading differ. Two calls that read the same millisecond return the same id.
\<close>

theorem generateSecureUserId_distinct_iff:
  "(\<exists>uid. generateSecureUserId t1 uname = Inr uid) \<and>
   (generateSecureUserId t1 uname \<noteq> generateSecureUserId t2 uname \<longleftrightarrow>
      hash_loop (uname @ Number_toString t1 10) 0
        \<noteq> hash_loop (uname @ Number_toString t2 10) 0)"
proof -
  let ?p1 = "uname @ Number_toString t1 10"
  let ?p2 = "uname @ Number_toString t2 10"
  have ne: "?p1 \<noteq> []" "?p2 \<noteq> []" by (simp_all add: Number_toString_nonempty)
  from hashPassword_nonempty_form [OF ne(1)] obtain d1 where
    d1: "hashPassword ?p1 = Inr d1" "length d1 \<le> 12"
        "btoa (Number_toString (hash_loop ?p1 0 + 13) 36) = Inr d1" by blast
  from hashPassword_nonempty_form [OF ne(2)] obtain d2 where
    d2: "hashPassword ?p2 = Inr d2" "length d2 \<le> 12"
        "btoa (Number_toString (hash_loop ?p2 0 + 13) 36) = Inr d2" by blast
  have g1: "generateSecureUserId t1 uname = Inr (js ''user_'' @ d1)"
    using d1 by (simp add: generateSecureUserId_def)
  have g2: "generateSecureUserId t2 uname = Inr (js ''user_'' @ d2)"
    using d2 by (simp add: generateSecureUserId_def)
  have "d1 = d2 \<longleftrightarrow> hash_loop ?p1 0 = hash_loop ?p2 0"
  proof
    assume "d1 = d2"
    then have "btoa (Number_toString (hash_loop ?p1 0 + 13) 36)
                = btoa (Number_toString (hash_loop ?p2 0 + 13) 36)"
      using d1 d2 by simp
    then have "Number_toString (hash_loop ?p1 0 + 13) 36 = Number_toString (hash_loop ?p2 0 + 13) 36"
      by (rule btoa_inj [rotated 2]) (simp_all add: latin1_def Number_toString_latin1)
    then have "hash_loop ?p1 0 + 13 = hash_loop ?p2 0 + 13"
      by (rule Number_toString_inj [of 36, rotated 2]) simp_all
    then show "hash_loop ?p1 0 = hash_loop ?p2 0" by simp
  next
    assume "hash_loop ?p1 0 = hash_loop ?p2 0"
    then show "d1 = d2" using d1(3) d2(3) by simp
  qed
  then show ?thesis using g1 g2 by simp
qed


section \<open>Properties of the secure store\<close>

lemma js_append [simp]: "js (a @ b) = js a @ js b"
  by (simp add: js_def)

lemma js_latin1: "latin1 (js s)"
  by (simp add: js_def latin1_def list_all_iff nat_of_char_less_256)

lemma latin1_append [simp]: "latin1 (a @ b) \<longleftrightarrow> latin1 a \<and> latin1 b"
  by (simp add: latin1_def)

lemma latin1_Nil [simp]: "latin1 []"
  by (simp add: latin1_def)

lemma getEncryptionKey_latin1: "latin1 (getEncryptionKey now)"
  using Number_toString_latin1 [of 36 now]
  by (simp add: getEncryptionKey_def js_latin1) (simp add: latin1_def)

lemma physical_keys_differ: "js ''secure_'' @ a \<noteq> js ''key_'' @ b"
  by (simp add: js_def)

lemma btoa_Nil: "btoa [] = Inr []"
  by (simp add: btoa_def)

lemma encrypt_Nil: "encrypt [] key = Inr []"
  by (simp add: encrypt_def btoa_Nil)

text \<open>The key written by \<open>secureStore\<close> at a clock reading, and what is written with it.\<close>

lemma sealed:
  assumes "latin1 v"
  shows "\<exists>c kh. encrypt v (getEncryptionKey now) = Inr c \<and>
           btoa (getEncryptionKey now) = Inr kh \<and>
           decrypt_stored (Some c) (Some kh) = (if v = [] then None else Some v) \<and>
           (v = [] \<longrightarrow> c = [])"
proof -
  let ?key = "getEncryptionKey now"
  obtain c where c: "encrypt v ?key = Inr c" "decrypt c ?key = v" "v \<noteq> [] \<longrightarrow> c \<noteq> []"
    using decrypt_encrypt_latin1 [OF assms getEncryptionKey_latin1] by blast
  have "list_all (\<lambda>c. c < 256) ?key" using getEncryptionKey_latin1 by (simp add: latin1_def)
  from atob_btoa [OF this] obtain kh where
    kh: "btoa ?key = Inr kh" "atob kh = Inr ?key" "?key \<noteq> [] \<longrightarrow> kh \<noteq> []" by blast
  have "?key \<noteq> []" by (simp add: getEncryptionKey_def js_def)
  then have khne: "kh \<noteq> []" using kh(3) by simp
  have cnil: "v = [] \<longrightarrow> c = []" using c(1) by (auto simp: encrypt_Nil)
  have "decrypt_stored (Some c) (Some kh) = (if v = [] then None else Some v)"
    using c(2,3) kh(2) khne cnil by (simp add: decrypt_stored_def falsy_def)
  then show ?thesis using c(1) kh(1) cnil by blast
qed

text \<open>\<open>secureStore\<close> when both writes are accepted, and when one of them is rejected.\<close>

lemma secureStore_accepted:
  assumes "\<not> rejects w (calls w)" "\<not> rejects w (Suc (calls w))" "latin1 v"
  shows "\<exists>c kh. decrypt_stored (Some c) (Some kh) = (if v = [] then None else Some v) \<and>
           (v = [] \<longrightarrow> c = []) \<and>
           secureStore k v w =
             (Inr (), w\<lparr>ticks := Suc (ticks w), calls := Suc (Suc (calls w)),
                       items := (items w)(js ''secure_'' @ k \<mapsto> c, js ''key_'' @ k \<mapsto> kh)\<rparr>)"
proof -
  from sealed [OF assms(3), of "clock w (ticks w)"] obtain c kh where
    s: "encrypt v (getEncryptionKey (clock w (ticks w))) = Inr c"
       "btoa (getEncryptionKey (clock w (ticks w))) = Inr kh"
       "decrypt_stored (Some c) (Some kh) = (if v = [] then None else Some v)"
       "v = [] \<longrightarrow> c = []"
    by blast
  have "secureStore k v w =
             (Inr (), w\<lparr>ticks := Suc (ticks w), calls := Suc (Suc (calls w)),
                       items := (items w)(js ''secure_'' @ k \<mapsto> c, js ''key_'' @ k \<mapsto> kh)\<rparr>)"
    using assms(1,2) s(1,2)
    by (simp add: secureStore_def Date_now_def AsyncStorage_setItem_def)
  with s(3,4) show ?thesis by blast
qed

lemma secureStore_first_rejected:
  assumes "rejects w (calls w)" "latin1 v"
  shows "secureStore k v w =
           (Inl SecureStoreError, w\<lparr>ticks := Suc (ticks w), calls := Suc (calls w)\<rparr>)"
proof -
  from sealed [OF assms(2), of "clock w (ticks w)"] obtain c where
    "encrypt v (getEncryptionKey (clock w (ticks w))) = Inr c" by blast
  then show ?thesis using assms(1)
    by (simp add: secureStore_def Date_now_def AsyncStorage_setItem_def)
qed

lemma secureStore_second_rejected:
  assumes "\<not> rejects w (calls w)" "rejects w (Suc (calls w))" "latin1 v"
  shows "\<exists>c. (v = [] \<longrightarrow> c = []) \<and>
           secureStore k v w =
             (Inl SecureStoreError,
              w\<lparr>ticks := Suc (ticks w), calls := Suc (Suc (calls w)),
                items := (items w)(js ''secure_'' @ k \<mapsto> c)\<rparr>)"
proof -
  from sealed [OF assms(3), of "clock w (ticks w)"] obtain c kh where
    s: "encrypt v (getEncryptionKey (clock w (ticks w))) = Inr c"
       "btoa (getEncryptionKey (clock w (ticks w))) = Inr kh" "v = [] \<longrightarrow> c = []"
    by blast
  have "secureStore k v w =
             (Inl SecureStoreError,
              w\<lparr>ticks := Suc (ticks w), calls := Suc (Suc (calls w)),
                items := (items w)(js ''secure_'' @ k \<mapsto> c)\<rparr>)"
    using assms(1,2) s(1,2)
    by (simp add: secureStore_def Date_now_def AsyncStorage_setItem_def)
  with s(3) show ?thesis by blast
qed

text \<open>What \<open>secureStore\<close> never changes.\<close>

lemma secureStore_frame:
  "clock (snd (secureStore k v w)) = clock w \<and> rejects (snd (secureStore k v w)) = rejects w \<and>
   heap (snd (secureStore k v w)) = heap w \<and> ticks (snd (secureStore k v w)) = Suc (ticks w)"
  by (simp add: secureStore_def Date_now_def AsyncStorage_setItem_def Let_def
      split: sum.split prod.split)

text \<open>\<open>secureRetrieve\<close>: a served pair of reads, and what it never changes.\<close>

lemma secureRetrieve_served:
  assumes "\<not> rejects w (calls w)" "\<not> rejects w (Suc (calls w))"
  shows "secureRetrieve k w = (held k w, w\<lparr>calls := Suc (Suc (calls w))\<rparr>)"
  using assms by (simp add: secureRetrieve_def AsyncStorage_getItem_def held_def)

lemma secureRetrieve_cases:
  "fst (secureRetrieve k w) = None \<or> secureRetrieve k w = (held k w, w\<lparr>calls := Suc (Suc (calls w))\<rparr>)"
  by (simp add: secureRetrieve_def AsyncStorage_getItem_def held_def)

lemma secureRetrieve_frame:
  "clock (snd (secureRetrieve k w)) = clock w \<and> rejects (snd (secureRetrieve k w)) = rejects w \<and>
   heap (snd (secureRetrieve k w)) = heap w \<and> ticks (snd (secureRetrieve k w)) = ticks w \<and>
   items (snd (secureRetrieve k w)) = items w"
  by (simp add: secureRetrieve_def AsyncStorage_getItem_def)

lemma held_empty_slot: "items w (js ''secure_'' @ k) = Some [] \<Longrightarrow> held k w = None"
  by (simp add: held_def decrypt_stored_def falsy_def)

lemma secureRetrieve_empty_slot:
  "items w (js ''secure_'' @ k) = Some [] \<Longrightarrow> fst (secureRetrieve k w) = None"
  using secureRetrieve_cases [of k w] held_empty_slot [of w k] by auto

lemma held_cong:
  "items w' (js ''secure_'' @ k) = items w (js ''secure_'' @ k) \<Longrightarrow>
   items w' (js ''key_'' @ k) = items w (js ''key_'' @ k) \<Longrightarrow> held k w' = held k w"
  by (simp add: held_def)

text \<open>The first write of \<open>secureStore\<close> with the empty string, once accepted, empties the slot.\<close>

lemma secureStore_empty_slot:
  assumes "\<not> rejects w (calls w)"
  shows "items (snd (secureStore k [] w)) (js ''secure_'' @ k) = Some []"
proof (cases "rejects w (Suc (calls w))")
  case True
  from secureStore_second_rejected [OF assms True latin1_Nil, of k] show ?thesis by auto
next
  case False
  from secureStore_accepted [OF assms False latin1_Nil, of k] show ?thesis
    using physical_keys_differ [of k k] by auto
qed

lemma secureStore_succeeds_iff:
  assumes "latin1 v"
  shows "fst (secureStore k v w) = Inr () \<longleftrightarrow> \<not> rejects w (calls w) \<and> \<not> rejects w (Suc (calls w))"
proof (cases "rejects w (calls w)")
  case True
  then show ?thesis using secureStore_first_rejected [OF True assms, of k] by simp
next
  case False
  show ?thesis
  proof (cases "rejects w (Suc (calls w))")
    case True
    then show ?thesis using secureStore_second_rejected [OF False True assms, of k] by auto
  next
    case n: False
    then show ?thesis using secureStore_accepted [OF False n assms, of k] False by auto
  qed
qed

text \<open>\<open>logout\<close> when both writes are accepted, and otherwise.\<close>

lemma logout_accepted:
  assumes "\<not> rejects w (calls w)" "\<not> rejects w (Suc (calls w))"
  shows "logout w = (snd (secureStore SESSION_STORAGE_KEY [] w))\<lparr>heap := clearSensitiveData (heap w)\<rparr>"
proof -
  have "fst (secureStore SESSION_STORAGE_KEY [] w) = Inr ()"
    using assms by (simp add: secureStore_succeeds_iff)
  then show ?thesis
    using secureStore_frame [of SESSION_STORAGE_KEY "[]" w]
    by (cases "secureStore SESSION_STORAGE_KEY [] w") (simp add: logout_def)
qed

lemma logout_rejected:
  assumes "rejects w (calls w) \<or> rejects w (Suc (calls w))"
  shows "logout w = snd (secureStore SESSION_STORAGE_KEY [] w)"
proof -
  have "fst (secureStore SESSION_STORAGE_KEY [] w) \<noteq> Inr ()"
    using assms by (simp add: secureStore_succeeds_iff)
  then show ?thesis
    by (cases "secureStore SESSION_STORAGE_KEY [] w") (auto simp: logout_def split: sum.split)
qed

lemma logout_items: "items (logout w) = items (snd (secureStore SESSION_STORAGE_KEY [] w))"
  by (cases "rejects w (calls w) \<or> rejects w (Suc (calls w))")
     (simp_all add: logout_rejected logout_accepted)

lemma logout_frame:
  "clock (logout w) = clock w \<and> rejects (logout w) = rejects w \<and> ticks (logout w) = Suc (ticks w)"
  using secureStore_frame [of SESSION_STORAGE_KEY "[]" w]
  by (cases "rejects w (calls w) \<or> rejects w (Suc (calls w))")
     (simp_all add: logout_rejected logout_accepted)

lemma getCurrentSession_no_session:
  "fst (secureRetrieve SESSION_STORAGE_KEY w) = None \<Longrightarrow> fst (getCurrentSession w) = None"
  by (cases "secureRetrieve SESSION_STORAGE_KEY w") (simp add: getCurrentSession_def falsy_def)

text \<open>
  Claim C10. \<open>secureStore(k, '')\<close> writes the empty ciphertext under \<open>secure_k\<close> with
  its first write, and returns normally exactly when both of its writes are accepted.
  Once the first write is accepted the slot holds the empty string and
  \<open>secureRetrieve(k)\<close> returns \<open>null\<close>, as it does in every world whose slot holds the
  empty string, whether its reads are served or rejected. In particular
  \<open>getCurrentSession\<close> after a \<open>logout\<close> whose first write is accepted returns no
  session.
\<close>

theorem secureStore_empty_reads_null:
  "(\<not> rejects w (calls w) \<longrightarrow>
      items (snd (secureStore k [] w)) (js ''secure_'' @ k) = Some [] \<and>
      fst (secureRetrieve k (snd (secureStore k [] w))) = None) \<and>
   (fst (secureStore k [] w) = Inr () \<longleftrightarrow>
      \<not> rejects w (calls w) \<and> \<not> rejects w (Suc (calls w))) \<and>
   (\<forall>w'. items w' (js ''secure_'' @ k) = Some [] \<longrightarrow> fst (secureRetrieve k w') = None) \<and>
   (\<not> rejects w (calls w) \<longrightarrow> fst (getCurrentSession (logout w)) = None)"
proof (intro conjI impI allI)
  assume a: "\<not> rejects w (calls w)"
  show s: "items (snd (secureStore k [] w)) (js ''secure_'' @ k) = Some []"
    using a by (rule secureStore_empty_slot)
  show "fst (secureRetrieve k (snd (secureStore k [] w))) = None"
    using s by (rule secureRetrieve_empty_slot)
next
  show "fst (secureStore k [] w) = Inr () \<longleftrightarrow>
      \<not> rejects w (calls w) \<and> \<not> rejects w (Suc (calls w))"
    by (simp add: secureStore_succeeds_iff)
next
  fix w' :: world
  assume "items w' (js ''secure_'' @ k) = Some []"
  then show "fst (secureRetrieve k w') = None" by (rule secureRetrieve_empty_slot)
next
  assume a: "\<not> rejects w (calls w)"
  have "items (logout w) (js ''secure_'' @ SESSION_STORAGE_KEY) = Some []"
    using secureStore_empty_slot [OF a] by (simp add: logout_items)
  then have "fst (secureRetrieve SESSION_STORAGE_KEY (logout w)) = None"
    by (rule secureRetrieve_empty_slot)
  then show "fst (getCurrentSession (logout w)) = None"
    by (rule getCurrentSession_no_session)
qed

text \<open>The empty string stored under \<open>user_session\<close> in a world with nothing else.\<close>

theorem secureStore_empty_reads_null_witness:
  "fst (secureRetrieve (js ''user_session'')
     (snd (secureStore (js ''user_session'') [] (fresh_world (\<lambda>n. 1700000000000))))) = None \<and>
   fst (secureStore (js ''user_session'') [] (fresh_world (\<lambda>n. 1700000000000))) = Inr () \<and>
   items (snd (secureStore (js ''user_session'') [] (fresh_world (\<lambda>n. 1700000000000))))
     (js ''secure_'' @ js ''user_session'') = Some [] \<and>
   fst (getCurrentSession (logout (fresh_world (\<lambda>n. 1700000000000)))) = None"
proof -
  let ?w = "fresh_world (\<lambda>n. 1700000000000)"
  have a: "\<not> rejects ?w (calls ?w)" by (simp add: fresh_world_def)
  have b: "\<not> rejects ?w (calls ?w) \<and> \<not> rejects ?w (Suc (calls ?w))" by (simp add: fresh_world_def)
  note t = secureStore_empty_reads_null [of ?w "js ''user_session''"]
  from t [THEN conjunct1, THEN mp, OF a]
  have 1: "items (snd (secureStore (js ''user_session'') [] ?w)) (js ''secure_'' @ js ''user_session'') = Some [] \<and>
      fst (secureRetrieve (js ''user_session'') (snd (secureStore (js ''user_session'') [] ?w))) = None" .
  from t [THEN conjunct2, THEN conjunct1] b
  have 2: "fst (secureStore (js ''user_session'') [] ?w) = Inr ()" by (rule iffD2)
  from t [THEN conjunct2, THEN conjunct2, THEN conjunct2, THEN mp, OF a]
  have 3: "fst (getCurrentSession (logout ?w)) = None" .
  from 1 2 3 show ?thesis by blast
qed

text \<open>
  Claim C9 as stated makes any two calls differ. Two calls that read the same millisecond
  from the clock return the same id.
\<close>

theorem generateSecureUserId_same_tick_counterexample:
  "generateSecureUserId_twice (js ''demo_user'') (fresh_world (\<lambda>n. 1700000000000))
     = (Inr (js ''user_MzllMWFv''), Inr (js ''user_MzllMWFv''))"
  by (simp add: generateSecureUserId_twice_def Date_now_def fresh_world_def
        generateSecureUserId_def hashPassword_def js_def ToInt32_def Number_toString_def
        digits.simps digit_char_def btoa_def b64_char_def salt_def)

text \<open>
  Claim C7, as amended. When both writes of \<open>secureStore\<close> are accepted, \<open>logout\<close>
  writes the empty string to the session slot and replaces the attempt table by a new
  empty one, whose prototype is \<open>Object.prototype\<close>; nothing else in the heap changes.
  Whatever the table held, for every identity that the new table looks up as nothing the
  next check is a first attempt and is allowed; these are at least the identities that are
  not the name of a property of \<open>Object.prototype\<close>, \<open>count\<close> and \<open>lastAttempt\<close>
  included.
\<close>

theorem logout_clears_table:
  assumes "\<not> rejects w (calls w)" and "\<not> rejects w (Suc (calls w))"
  shows "items (logout w) (js ''secure_'' @ SESSION_STORAGE_KEY) = Some [] \<and>
         heap (logout w) = (heap w)\<lparr>authAttempts := Map.empty, installed := None\<rparr> \<and>
         (\<forall>u now. \<not> truthy (table_get (heap (logout w)) u) \<longrightarrow>
            checkRateLimit now u (heap (logout w)) =
              (Inr \<lparr>allowed = True, remainingTime = None\<rparr>,
               (heap (logout w))\<lparr>authAttempts :=
                  [u \<mapsto> \<lparr>count = Some (Num 1), lastAttempt = Some (Num now)\<rparr>]\<rparr>)) \<and>
         (\<forall>u. u \<notin> set Object_prototype_functions \<and> u \<noteq> js ''__proto__'' \<and>
               u \<noteq> js ''count'' \<and> u \<noteq> js ''lastAttempt'' \<longrightarrow>
            table_get (heap (logout w)) u = Undefined)"
proof (intro conjI allI impI)
  show "items (logout w) (js ''secure_'' @ SESSION_STORAGE_KEY) = Some []"
    using secureStore_empty_slot [OF assms(1)] by (simp add: logout_items)
  show h: "heap (logout w) = (heap w)\<lparr>authAttempts := Map.empty, installed := None\<rparr>"
    by (simp add: logout_accepted [OF assms] clearSensitiveData_def)
  {
    fix u now
    assume "\<not> truthy (table_get (heap (logout w)) u)"
    from checkRateLimit_unseen [OF this, of now]
    show "checkRateLimit now u (heap (logout w)) =
              (Inr \<lparr>allowed = True, remainingTime = None\<rparr>,
               (heap (logout w))\<lparr>authAttempts :=
                  [u \<mapsto> \<lparr>count = Some (Num 1), lastAttempt = Some (Num now)\<rparr>]\<rparr>)"
      by (simp add: h first_attempt_def)
  }
  {
    fix u
    assume "u \<notin> set Object_prototype_functions \<and> u \<noteq> js ''__proto__'' \<and>
               u \<noteq> js ''count'' \<and> u \<noteq> js ''lastAttempt''"
    then show "table_get (heap (logout w)) u = Undefined"
      by (intro table_get_ordinary) (simp_all add: h)
  }
qed

text \<open>An identity locked out at time 5000 is allowed again after a logout.\<close>

theorem logout_clears_table_witness:
  "fst (checkRateLimit 5000 (js ''demo_user'')
      (heap ((fresh_world (\<lambda>n. 5000))
         \<lparr>heap := fresh_heap\<lparr>authAttempts :=
            [js ''demo_user'' \<mapsto> \<lparr>count = Some (Num 5), lastAttempt = Some (Num 4000)\<rparr>]\<rparr>\<rparr>)))
     = Inr \<lparr>allowed = False, remainingTime = Some (Num 899)\<rparr> \<and>
   checkRateLimit 5000 (js ''demo_user'')
      (heap (logout ((fresh_world (\<lambda>n. 5000))
         \<lparr>heap := fresh_heap\<lparr>authAttempts :=
            [js ''demo_user'' \<mapsto> \<lparr>count = Some (Num 5), lastAttempt = Some (Num 4000)\<rparr>]\<rparr>\<rparr>)))
     = (Inr \<lparr>allowed = True, remainingTime = None\<rparr>,
        fresh_heap\<lparr>authAttempts :=
          [js ''demo_user'' \<mapsto> \<lparr>count = Some (Num 1), lastAttempt = Some (Num 5000)\<rparr>]\<rparr>)"
proof -
  let ?u = "js ''demo_user''"
  let ?w = "(fresh_world (\<lambda>n. 5000))
         \<lparr>heap := fresh_heap\<lparr>authAttempts :=
            [?u \<mapsto> \<lparr>count = Some (Num 5), lastAttempt = Some (Num 4000)\<rparr>]\<rparr>\<rparr>"
  have a: "\<not> rejects ?w (calls ?w)" and b: "\<not> rejects ?w (Suc (calls ?w))"
    by (simp_all add: fresh_world_def)
  have 1: "fst (checkRateLimit 5000 ?u (heap ?w)) = Inr \<lparr>allowed = False, remainingTime = Some (Num 899)\<rparr>"
    by (simp add: checkRateLimit_def heap_eval number_eval fresh_heap_def)
  note t = logout_clears_table [OF a b]
  have h: "heap (logout ?w) = fresh_heap"
    using t [THEN conjunct2, THEN conjunct1] by (simp add: fresh_heap_def)
  have o: "?u \<notin> set Object_prototype_functions \<and> ?u \<noteq> js ''__proto__'' \<and>
               ?u \<noteq> js ''count'' \<and> ?u \<noteq> js ''lastAttempt''"
    by (simp add: Object_prototype_functions_def js_def)
  from t [THEN conjunct2, THEN conjunct2, THEN conjunct2, THEN spec, THEN mp, OF o]
  have "\<not> truthy (table_get (heap (logout ?w)) ?u)" by (simp add: truthy_def)
  from t [THEN conjunct2, THEN conjunct2, THEN conjunct1, THEN spec, THEN spec, THEN mp, OF this]
  have 2: "checkRateLimit 5000 ?u (heap (logout ?w)) =
      (Inr \<lparr>allowed = True, remainingTime = None\<rparr>,
        fresh_heap\<lparr>authAttempts :=
          [?u \<mapsto> \<lparr>count = Some (Num 1), lastAttempt = Some (Num 5000)\<rparr>]\<rparr>)"
    unfolding h .
  from 1 2 show ?thesis by (rule conjI)
qed

text \<open>
  Claim C7 as stated resets the table after any logout and lets every identity in. When
  the first write of the session slot is rejected, \<open>secureStore\<close> throws, the catch block
  of \<open>logout\<close> logs, and \<open>clearSensitiveData\<close> is never reached: the locked-out
  identity stays locked out. And after a logout that clears the table, the identity
  \<open>lastAttempt\<close>, locked out before, is not allowed either when a check for \<open>__proto__\<close>
  has been made: that check wrote \<open>lastAttempt\<close> to \<open>Object.prototype\<close>, the lookup
  finds this number in the new table, and \<open>count++\<close> on a number throws.
\<close>

theorem logout_storage_failure_counterexample:
  "heap (logout ((fresh_world (\<lambda>n. 5000))
      \<lparr>rejects := (\<lambda>n. True),
        heap := fresh_heap\<lparr>authAttempts :=
          [js ''demo_user'' \<mapsto> \<lparr>count = Some (Num 5), lastAttempt = Some (Num 4000)\<rparr>]\<rparr>\<rparr>))
     = fresh_heap\<lparr>authAttempts :=
          [js ''demo_user'' \<mapsto> \<lparr>count = Some (Num 5), lastAttempt = Some (Num 4000)\<rparr>]\<rparr> \<and>
   fst (checkRateLimit 5000 (js ''demo_user'')
     (fresh_heap\<lparr>authAttempts :=
          [js ''demo_user'' \<mapsto> \<lparr>count = Some (Num 5), lastAttempt = Some (Num 4000)\<rparr>]\<rparr>))
     = Inr \<lparr>allowed = False, remainingTime = Some (Num 899)\<rparr> \<and>
   fst (checkRateLimit 5000 (js ''lastAttempt'')
     (snd (checkRateLimit 4500 (js ''__proto__'')
        (snd (checkRateLimit_calls [0, 1000, 2000, 3000, 4000] (js ''lastAttempt'') fresh_heap)))))
     = Inr \<lparr>allowed = False, remainingTime = Some (Num 899)\<rparr> \<and>
   fst (checkRateLimit 5000 (js ''lastAttempt'')
     (heap (logout ((fresh_world (\<lambda>n. 5000))
        \<lparr>heap := snd (checkRateLimit 4500 (js ''__proto__'')
           (snd (checkRateLimit_calls [0, 1000, 2000, 3000, 4000] (js ''lastAttempt'')
              fresh_heap)))\<rparr>))))
     = Inl TypeError"
proof -
  let ?locked = "fresh_heap\<lparr>authAttempts :=
          [js ''demo_user'' \<mapsto> \<lparr>count = Some (Num 5), lastAttempt = Some (Num 4000)\<rparr>]\<rparr>"
  let ?w = "(fresh_world (\<lambda>n. 5000))\<lparr>rejects := (\<lambda>n. True), heap := ?locked\<rparr>"
  have "rejects ?w (calls ?w) \<or> rejects ?w (Suc (calls ?w))" by simp
  then have "heap (logout ?w) = heap ?w"
    using secureStore_frame [of SESSION_STORAGE_KEY "[]" ?w] by (simp only: logout_rejected)
  then have 1: "heap (logout ?w) = ?locked" by simp
  have 2: "fst (checkRateLimit 5000 (js ''demo_user'') ?locked)
      = Inr \<lparr>allowed = False, remainingTime = Some (Num 899)\<rparr>"
    by (simp add: checkRateLimit_def heap_eval number_eval fresh_heap_def)
  define hh where "hh = snd (checkRateLimit 4500 (js ''__proto__'')
        (snd (checkRateLimit_calls [0, 1000, 2000, 3000, 4000] (js ''lastAttempt'') fresh_heap)))"
  have h: "hh = \<lparr>authAttempts =
                  [js ''lastAttempt'' \<mapsto> \<lparr>count = Some (Num 5), lastAttempt = Some (Num 4000)\<rparr>],
                installed = None,
                Object_prototype = \<lparr>count = Some NaN, lastAttempt = Some (Num 4500)\<rparr>,
                Function_slots = (\<lambda>name. no_slots)\<rparr>"
    unfolding hh_def
    by (simp add: checkRateLimit_def heap_eval number_eval fresh_heap_def js_def)
  have 3: "fst (checkRateLimit 5000 (js ''lastAttempt'') hh)
      = Inr \<lparr>allowed = False, remainingTime = Some (Num 899)\<rparr>"
    unfolding h by (simp add: checkRateLimit_def heap_eval number_eval)
  let ?v = "(fresh_world (\<lambda>n. 5000))\<lparr>heap := hh\<rparr>"
  have "\<not> rejects ?v (calls ?v)" and "\<not> rejects ?v (Suc (calls ?v))"
    by (simp_all add: fresh_world_def)
  then have "heap (logout ?v) = clearSensitiveData (heap ?v)"
    by (simp add: logout_accepted)
  then have c: "heap (logout ?v) = \<lparr>authAttempts = Map.empty,
                installed = None,
                Object_prototype = \<lparr>count = Some NaN, lastAttempt = Some (Num 4500)\<rparr>,
                Function_slots = (\<lambda>name. no_slots)\<rparr>"
    by (simp add: h clearSensitiveData_def)
  have 4: "fst (checkRateLimit 5000 (js ''lastAttempt'') (heap (logout ?v))) = Inl TypeError"
    unfolding c by (simp add: checkRateLimit_def heap_eval number_eval js_def)
  from 1 2 3 4 show ?thesis unfolding hh_def by blast
qed


section \<open>Properties of the JSON text\<close>

lemma latin1_Cons [simp]: "latin1 (c # s) \<longleftrightarrow> c < 256 \<and> latin1 s"
  by (simp add: latin1_def)

lemma json_plain_Cons:
  "json_plain (c # s) \<longleftrightarrow> 32 \<le> c \<and> c \<le> 126 \<and> c \<noteq> 34 \<and> c \<noteq> 92 \<and> json_plain s"
  by (auto simp: json_plain_def)

lemma json_plain_Nil [simp]: "json_plain []"
  by (simp add: json_plain_def)

lemma json_plain_append [simp]: "json_plain (a @ b) \<longleftrightarrow> json_plain a \<and> json_plain b"
  by (simp add: json_plain_def)

lemma json_plain_latin1: "json_plain s \<Longrightarrow> latin1 s"
  by (auto simp: json_plain_def latin1_def list_all_iff)

lemma quote_units_plain: "json_plain s \<Longrightarrow> quote_units s = s"
  by (induction s) (auto simp: json_plain_Cons lead_surrogate_def trail_surrogate_def)

lemma QuoteJSONString_plain: "json_plain s \<Longrightarrow> QuoteJSONString s = 34 # s @ [34]"
  by (simp add: QuoteJSONString_def quote_units_plain)

lemma string_units_plain:
  "json_plain s \<Longrightarrow> length s < fuel \<Longrightarrow> string_units fuel (s @ 34 # rest) = Some (s, rest)"
proof (induction s arbitrary: fuel)
  case Nil
  then obtain f where "fuel = Suc f" by (cases fuel) simp_all
  then show ?case by simp
next
  case (Cons c s)
  then obtain f where f: "fuel = Suc f" by (cases fuel) simp_all
  have "string_units f (s @ 34 # rest) = Some (s, rest)"
    using Cons f by (simp add: json_plain_Cons)
  then show ?case using Cons.prems(1) f by (simp add: json_plain_Cons)
qed

lemma parse_string_quoted:
  "json_plain s \<Longrightarrow> parse_string (QuoteJSONString s @ rest) = Some (s, rest)"
  by (simp add: parse_string_def QuoteJSONString_plain string_units_plain)

lemma expect_append: "expect p (p @ rest) = Some rest"
  by (induction p) simp_all

lemma digits10_are_digits: "list_all (\<lambda>c. 48 \<le> c \<and> c \<le> 57) (digits 10 n)"
proof (induction "10::nat" n rule: digits.induct)
  case (1 n)
  show ?case
  proof (cases "n < 10")
    case True
    then show ?thesis by (simp add: digits_small digit_char_def)
  next
    case False
    have "n mod 10 < 10" by simp
    then have "48 \<le> digit_char (n mod 10) \<and> digit_char (n mod 10) \<le> 57"
      by (simp add: digit_char_def)
    then show ?thesis using False 1 by (simp add: digits_big)
  qed
qed

lemma parse_digits_append:
  assumes "list_all (\<lambda>c. 48 \<le> c \<and> c \<le> 57) ds"
    and "rest = [] \<or> \<not> (48 \<le> hd rest \<and> hd rest \<le> 57)"
  shows "parse_digits (ds @ rest) acc = (foldl (\<lambda>a d. a * 10 + (d - 48)) acc ds, rest)"
  using assms(1)
proof (induction ds arbitrary: acc)
  case Nil
  then show ?case using assms(2) by (cases rest) auto
next
  case (Cons d ds)
  then show ?case by simp
qed

lemma digits10_value: "foldl (\<lambda>a d. a * 10 + (d - 48)) 0 (digits 10 n) = n"
proof (induction "10::nat" n rule: digits.induct)
  case (1 n)
  show ?case
  proof (cases "n < 10")
    case True
    then show ?thesis by (simp add: digits_small digit_char_def)
  next
    case False
    have d: "digit_char (n mod 10) - 48 = n mod 10"
      by (simp add: digit_char_def)
    have "foldl (\<lambda>a d. a * 10 + (d - 48)) 0 (digits 10 (n div 10)) = n div 10"
      using 1 False by simp
    then show ?thesis using False d by (simp add: digits_big)
  qed
qed

lemma digits10_head: "0 < n \<Longrightarrow> 49 \<le> hd (digits 10 n) \<and> hd (digits 10 n) \<le> 57"
proof (induction "10::nat" n rule: digits.induct)
  case (1 n)
  show ?case
  proof (cases "n < 10")
    case True
    then show ?thesis using 1(2) by (simp add: digits_small digit_char_def)
  next
    case False
    then have "0 < n div 10" by (simp add: div_greater_zero_iff)
    then have "49 \<le> hd (digits 10 (n div 10)) \<and> hd (digits 10 (n div 10)) \<le> 57"
      using 1(1) False by simp
    then show ?thesis using False digits_nonempty [of 10 "n div 10"]
      by (simp add: digits_big)
  qed
qed

lemma parse_natural_digits:
  assumes "rest = [] \<or> \<not> (48 \<le> hd rest \<and> hd rest \<le> 57)"
  shows "parse_natural (digits 10 n @ rest) = Some (n, rest)"
proof (cases "n = 0")
  case True
  then show ?thesis by (simp add: digits_small digit_char_def parse_natural_def)
next
  case False
  then have h: "49 \<le> hd (digits 10 n) \<and> hd (digits 10 n) \<le> 57"
    using digits10_head [of n] by simp
  obtain c cs where c: "digits 10 n = c # cs"
    using digits_nonempty [of 10 n] by (cases "digits 10 n") auto
  have "parse_digits (digits 10 n @ rest) 0 = (n, rest)"
    using parse_digits_append [OF digits10_are_digits assms, of n 0] by (simp add: digits10_value)
  then show ?thesis using h c by (simp add: parse_natural_def)
qed

lemma parse_number_toString:
  assumes "rest = [] \<or> \<not> (48 \<le> hd rest \<and> hd rest \<le> 57)"
  shows "parse_number (Number_toString n 10 @ rest) = Some (n, rest)"
proof (cases "n < 0")
  case True
  then show ?thesis
    using parse_natural_digits [OF assms, of "nat (- n)"]
    by (simp add: parse_number_def Number_toString_def)
next
  case False
  obtain c cs where c: "digits 10 (nat n) = c # cs"
    using digits_nonempty [of 10 "nat n"] by (cases "digits 10 (nat n)") auto
  have "48 \<le> c" using digits10_are_digits [of "nat n"] c by simp
  then have "c \<noteq> 45" by simp
  then show ?thesis
    using False c parse_natural_digits [OF assms, of "nat n"]
    by (simp add: parse_number_def Number_toString_def)
qed

lemma parse_user_stringify:
  assumes "plain_user u"
  shows "parse_user (stringify_user u @ rest) = Some (u, rest)"
proof -
  have n: "parse_number (Number_toString (createdAt u) 10 @ js ''}'' @ rest)
             = Some (createdAt u, js ''}'' @ rest)"
    by (rule parse_number_toString) (simp add: js_def)
  show ?thesis
    using assms n
    by (simp add: parse_user_def stringify_user_def plain_user_def expect_append
          parse_string_quoted)
qed

lemma join_Cons: "join sep (x # xs) = x @ concat (map (\<lambda>y. sep @ y) xs)"
  by (induction xs arbitrary: x) simp_all

lemma parse_more_users_stringify:
  "list_all plain_user us \<Longrightarrow> length us < fuel \<Longrightarrow>
   parse_more_users fuel (concat (map (\<lambda>u. js '','' @ stringify_user u) us) @ js '']'') = Some us"
proof (induction us arbitrary: fuel)
  case Nil
  then obtain f where "fuel = Suc f" by (cases fuel) simp_all
  then show ?case by (simp add: js_def)
next
  case (Cons u us)
  then obtain f where f: "fuel = Suc f" by (cases fuel) simp_all
  have r: "parse_more_users f (concat (map (\<lambda>u. js '','' @ stringify_user u) us) @ js '']'') = Some us"
    using Cons f by simp
  have p: "parse_user (stringify_user u @ concat (map (\<lambda>u. js '','' @ stringify_user u) us) @ js '']'')
            = Some (u, concat (map (\<lambda>u. js '','' @ stringify_user u) us) @ js '']'')"
    using Cons.prems(1) by (simp add: parse_user_stringify)
  have "js '','' = [44]" by (simp add: js_def)
  then show ?case using f r p by simp
qed

lemma stringify_user_head: "\<exists>t. stringify_user u = 123 # t"
  by (simp add: stringify_user_def js_def)

lemma JSON_parse_stringify_users:
  assumes "list_all plain_user us"
  shows "JSON_parse_users (JSON_stringify_users us) = Inr us"
proof (cases us)
  case Nil
  then show ?thesis by (simp add: JSON_parse_users_def JSON_stringify_users_def js_def)
next
  case (Cons u more)
  let ?tail = "concat (map (\<lambda>u. js '','' @ stringify_user u) more) @ js '']''"
  have s: "JSON_stringify_users us = 91 # stringify_user u @ ?tail"
    using Cons by (simp add: JSON_stringify_users_def join_Cons js_def comp_def)
  obtain t where t: "stringify_user u = 123 # t" using stringify_user_head by blast
  have ne: "stringify_user u @ ?tail \<noteq> js '']''"
    using t by (simp add: js_def)
  have p: "parse_user (stringify_user u @ ?tail) = Some (u, ?tail)"
    using assms Cons by (simp add: parse_user_stringify)
  have "length more < length (JSON_stringify_users us)"
  proof -
    have "length more \<le> length (concat (map (\<lambda>u. js '','' @ stringify_user u) more))"
      by (induction more) (simp_all add: js_def)
    then show ?thesis unfolding s by simp
  qed
  then have m: "parse_more_users (length (JSON_stringify_users us)) ?tail = Some more"
    using assms Cons by (simp add: parse_more_users_stringify)
  show ?thesis
    unfolding JSON_parse_users_def
    using m p ne unfolding s by (simp add: Cons)
qed

lemma Number_toString_plain: "json_plain (Number_toString n 10)"
  using digits10_are_digits [of "nat n"] digits10_are_digits [of "nat (- n)"]
  by (auto simp: json_plain_def list_all_iff Number_toString_def)

lemma Number_toString_is_latin1: "2 \<le> radix \<Longrightarrow> radix \<le> 36 \<Longrightarrow> latin1 (Number_toString n radix)"
  by (simp add: latin1_def Number_toString_latin1)

lemma js_plain_literals:
  "json_plain (js ''['')" "json_plain (js '']'')" "json_plain (js '','')" "json_plain (js ''}'')"
  "json_plain (js ''user_'')"
  by (simp_all add: json_plain_def js_def)

lemma stringify_user_latin1: "plain_user u \<Longrightarrow> latin1 (stringify_user u)"
  by (simp add: stringify_user_def plain_user_def QuoteJSONString_plain js_latin1 json_plain_latin1
        Number_toString_is_latin1)

lemma JSON_stringify_users_latin1:
  "list_all plain_user us \<Longrightarrow> latin1 (JSON_stringify_users us)"
proof -
  assume a: "list_all plain_user us"
  have "latin1 (join (js '','') (map stringify_user us))"
    using a
  proof (induction us)
    case Nil
    then show ?case by simp
  next
    case (Cons u us)
    then show ?case
      by (cases us) (simp_all add: stringify_user_latin1 js_latin1)
  qed
  then show ?thesis by (simp add: JSON_stringify_users_def js_latin1)
qed

lemma JSON_stringify_users_nonempty: "JSON_stringify_users us \<noteq> []"
  by (simp add: JSON_stringify_users_def js_def)

lemma JSON_stringify_session_latin1:
  "json_plain (session_userId s) \<Longrightarrow> json_plain (session_username s) \<Longrightarrow>
   json_plain (sessionId s) \<Longrightarrow> latin1 (JSON_stringify_session s)"
  by (simp add: JSON_stringify_session_def QuoteJSONString_plain js_latin1 json_plain_latin1
        Number_toString_is_latin1)

lemma JSON_stringify_session_nonempty: "JSON_stringify_session s \<noteq> []"
  by (simp add: JSON_stringify_session_def js_def)



section \<open>Properties of AuthService\<close>

lemma sanitized_validate [simp]: "sanitized (validateAndSanitizeInput input t) = sanitize input"
  by (simp add: validateAndSanitizeInput_def Let_def)

lemma valid_username:
  "isValid (validateAndSanitizeInput input Username) \<longleftrightarrow>
     3 \<le> length (sanitize input) \<and> length (sanitize input) \<le> 20 \<and> username_pattern (sanitize input)"
  by (auto simp: validateAndSanitizeInput_def Let_def)

lemma valid_password:
  "isValid (validateAndSanitizeInput input Password) \<longleftrightarrow>
     8 \<le> length (sanitize input) \<and> password_pattern (sanitize input)"
  by (auto simp: validateAndSanitizeInput_def Let_def)

lemma word_chars_plain: "list_all word_char s \<Longrightarrow> json_plain s"
  by (auto simp: json_plain_def word_char_def list_all_iff)

lemma valid_username_plain:
  "isValid (validateAndSanitizeInput input Username) \<Longrightarrow> json_plain (sanitize input)"
  by (simp add: valid_username username_pattern_def word_chars_plain)

lemma b64_char_plain: "n < 64 \<Longrightarrow> 32 \<le> b64_char n \<and> b64_char n \<le> 126 \<and> b64_char n \<noteq> 34 \<and> b64_char n \<noteq> 92"
  by (auto simp: b64_char_def)

lemma btoa_plain:
  assumes "btoa s = Inr e"
  shows "json_plain e"
proof -
  have l: "list_all (\<lambda>c. c < 256) s"
    using assms by (auto simp: btoa_def list_all_iff list_ex_iff split: if_splits)
  have e: "e = map b64_char (sextets s) @ replicate ((3 - length s mod 3) mod 3) 61"
    using assms by (simp add: btoa_def split: if_splits)
  have "list_all (\<lambda>x. x < 64) (sextets s)" using l by (rule sextets_bound)
  then have "json_plain (map b64_char (sextets s))"
    using b64_char_plain by (auto simp: json_plain_def list_all_iff)
  moreover have "json_plain (replicate ((3 - length s mod 3) mod 3) 61)"
    by (simp add: json_plain_def list_all_iff)
  ultimately show ?thesis unfolding e by simp
qed

lemma hashPassword_plain: "hashPassword p = Inr h \<Longrightarrow> json_plain h"
proof (cases "p = []")
  case True
  assume "hashPassword p = Inr h"
  then have "h = Number_toString 0 10" using True by (simp add: hashPassword_def)
  then show ?thesis by (simp add: Number_toString_plain)
next
  case False
  assume "hashPassword p = Inr h"
  then show ?thesis using False btoa_plain by (simp add: hashPassword_def)
qed

lemma json_plain_take: "json_plain s \<Longrightarrow> json_plain (take n s)"
  by (auto simp: json_plain_def list_all_iff dest: in_set_takeD)

lemma generateSecureUserId_succeeds:
  "\<exists>uid. generateSecureUserId t name = Inr uid \<and> json_plain uid"
proof -
  obtain d where d: "hashPassword (name @ Number_toString t 10) = Inr d"
    using hashPassword_succeeds by blast
  then have "json_plain (js ''user_'' @ take 12 d)"
    using hashPassword_plain [OF d] by (simp add: json_plain_take js_plain_literals)
  then show ?thesis using d by (simp add: generateSecureUserId_def)
qed

lemma pwd_key_not_users: "js ''pwd_'' @ uid \<noteq> USERS_STORAGE_KEY"
  by (simp add: USERS_STORAGE_KEY_def js_def)

lemma pwd_key_not_session: "js ''pwd_'' @ uid \<noteq> SESSION_STORAGE_KEY"
  by (simp add: SESSION_STORAGE_KEY_def js_def)

lemma users_key_not_session: "USERS_STORAGE_KEY \<noteq> SESSION_STORAGE_KEY"
  by (simp add: USERS_STORAGE_KEY_def SESSION_STORAGE_KEY_def js_def)

lemma find_user_append_new:
  "\<not> list_ex (\<lambda>u. username u = name) existing \<Longrightarrow> username new = name \<Longrightarrow>
   find_user name (existing @ [new]) = Some new"
  by (induction existing) (simp_all add: find_user_def)


subsection \<open>The store under the operations of the service\<close>

lemma held_updates [simp]:
  "held k (w\<lparr>ticks := t\<rparr>) = held k w"
  "held k (w\<lparr>calls := n\<rparr>) = held k w"
  "held k (w\<lparr>heap := h\<rparr>) = held k w"
  by (simp_all add: held_def)

lemma secureStore_held:
  assumes "\<not> rejects w (calls w)" "\<not> rejects w (Suc (calls w))" "latin1 v"
  shows "\<exists>w'. secureStore k v w = (Inr (), w') \<and> rejects w' = rejects w \<and> clock w' = clock w \<and>
           ticks w' = Suc (ticks w) \<and> calls w' = Suc (Suc (calls w)) \<and> heap w' = heap w \<and>
           held k w' = (if v = [] then None else Some v) \<and>
           (\<forall>k'. k' \<noteq> k \<longrightarrow> held k' w' = held k' w)"
proof -
  from secureStore_accepted [OF assms, of k] obtain c kh where
    f: "decrypt_stored (Some c) (Some kh) = (if v = [] then None else Some v)"
       "secureStore k v w =
             (Inr (), w\<lparr>ticks := Suc (ticks w), calls := Suc (Suc (calls w)),
                       items := (items w)(js ''secure_'' @ k \<mapsto> c, js ''key_'' @ k \<mapsto> kh)\<rparr>)"
    by blast
  let ?w' = "w\<lparr>ticks := Suc (ticks w), calls := Suc (Suc (calls w)),
                items := (items w)(js ''secure_'' @ k \<mapsto> c, js ''key_'' @ k \<mapsto> kh)\<rparr>"
  have r: "held k ?w' = (if v = [] then None else Some v)"
    using f(1) physical_keys_differ [of k k] by (simp add: held_def)
  have fr: "\<forall>k'. k' \<noteq> k \<longrightarrow> held k' ?w' = held k' w"
    using physical_keys_differ physical_keys_differ [symmetric] by (simp add: held_def)
  show ?thesis using f(2) r fr by simp
qed

lemma getStoredUsers_served:
  assumes "\<not> rejects w (calls w)" "\<not> rejects w (Suc (calls w))"
    and "held USERS_STORAGE_KEY w = None \<and> us = [] \<or>
         held USERS_STORAGE_KEY w = Some (JSON_stringify_users us) \<and> list_all plain_user us"
  shows "getStoredUsers w = (us, w\<lparr>calls := Suc (Suc (calls w))\<rparr>)"
  using assms(3) secureRetrieve_served [OF assms(1,2), of USERS_STORAGE_KEY]
  by (auto simp: getStoredUsers_def falsy_def JSON_stringify_users_nonempty
      JSON_parse_stringify_users)

text \<open>Whatever the medium does, the registry is read as written or as empty.\<close>

lemma getStoredUsers_cases:
  assumes "held USERS_STORAGE_KEY w = None \<and> us = [] \<or>
           held USERS_STORAGE_KEY w = Some (JSON_stringify_users us) \<and> list_all plain_user us"
  shows "fst (getStoredUsers w) = [] \<or> fst (getStoredUsers w) = us"
  using assms secureRetrieve_cases [of USERS_STORAGE_KEY w]
  by (auto simp: getStoredUsers_def falsy_def JSON_stringify_users_nonempty
      JSON_parse_stringify_users split: prod.split)

lemma getStoredUsers_frame:
  "clock (snd (getStoredUsers w)) = clock w \<and> rejects (snd (getStoredUsers w)) = rejects w \<and>
   heap (snd (getStoredUsers w)) = heap w \<and> ticks (snd (getStoredUsers w)) = ticks w \<and>
   items (snd (getStoredUsers w)) = items w"
  using secureRetrieve_frame [of USERS_STORAGE_KEY w]
  by (cases "secureRetrieve USERS_STORAGE_KEY w") (simp add: getStoredUsers_def)

subsection \<open>What validation accepts\<close>

lemma lookahead_single_line:
  "\<not> list_ex line_terminator s \<Longrightarrow> lookahead P s = list_ex P s"
proof -
  assume "\<not> list_ex line_terminator s"
  then have "takeWhile (\<lambda>c. \<not> line_terminator c) s = s"
    by (simp add: list_ex_iff)
  then show ?thesis by (simp only: lookahead_def)
qed

text \<open>
  On a password without line terminators the pattern asks for a lower-case letter, an
  upper-case letter and a digit anywhere in it.
\<close>

lemma password_pattern_single_line:
  "\<not> list_ex line_terminator s \<Longrightarrow>
   password_pattern s \<longleftrightarrow>
     list_ex (\<lambda>x. 97 \<le> x \<and> x \<le> 122) s \<and> list_ex (\<lambda>x. 65 \<le> x \<and> x \<le> 90) s \<and>
     list_ex (\<lambda>x. 48 \<le> x \<and> x \<le> 57) s"
proof (induction s)
  case Nil
  then show ?case by simp
next
  case (Cons c s)
  have l: "\<And>P. lookahead P (c # s) = list_ex P (c # s)"
    using Cons.prems by (rule lookahead_single_line)
  have "password_pattern s \<longleftrightarrow>
     list_ex (\<lambda>x. 97 \<le> x \<and> x \<le> 122) s \<and> list_ex (\<lambda>x. 65 \<le> x \<and> x \<le> 90) s \<and>
     list_ex (\<lambda>x. 48 \<le> x \<and> x \<le> 57) s"
    using Cons by simp
  then show ?case unfolding password_pattern.simps l by auto
qed



subsection \<open>Registration, session and authentication on a medium that serves every call\<close>

text \<open>What a registration that passes the checks does.\<close>

lemma registerUser_effect:
  assumes vu: "isValid (validateAndSanitizeInput (cred_username credentials) Username)"
    and vp: "isValid (validateAndSanitizeInput (cred_password credentials) Password)"
    and nw: "\<not> isWeakPassword (cred_password credentials)"
    and rel: "\<forall>n. \<not> rejects w n"
    and reg: "held USERS_STORAGE_KEY w = None \<and> us = [] \<or>
              held USERS_STORAGE_KEY w = Some (JSON_stringify_users us) \<and> list_all plain_user us"
    and nd: "\<not> list_ex (\<lambda>u. username u = sanitize (cred_username credentials)) us"
  shows "\<exists>newUser w' h.
           registerUser credentials w = (\<lparr>success = True, error = None, user = Some newUser\<rparr>, w') \<and>
           username newUser = sanitize (cred_username credentials) \<and>
           generateSecureUserId (clock w (ticks w)) (sanitize (cred_username credentials))
             = Inr (userId newUser) \<and>
           createdAt newUser = clock w (Suc (ticks w)) \<and>
           plain_user newUser \<and>
           rejects w' = rejects w \<and> clock w' = clock w \<and> ticks w' = ticks w + 4 \<and>
           heap w' = heap w \<and>
           held USERS_STORAGE_KEY w' = Some (JSON_stringify_users (us @ [newUser])) \<and>
           list_all plain_user (us @ [newUser]) \<and>
           hashPassword (sanitize (cred_password credentials)) = Inr h \<and>
           held (js ''pwd_'' @ userId newUser) w' = Some h \<and>
           held SESSION_STORAGE_KEY w' = held SESSION_STORAGE_KEY w"
proof -
  let ?name = "sanitize (cred_username credentials)"
  let ?w0 = "w\<lparr>calls := Suc (Suc (calls w))\<rparr>"
  let ?w2 = "w\<lparr>calls := Suc (Suc (calls w)), ticks := Suc (Suc (ticks w))\<rparr>"
  have pl: "list_all plain_user us" using reg by auto
  have g: "getStoredUsers w = (us, ?w0)"
    using rel reg by (intro getStoredUsers_served) simp_all
  obtain uid where uid: "generateSecureUserId (clock w (ticks w)) ?name = Inr uid" "json_plain uid"
    using generateSecureUserId_succeeds by blast
  let ?new = "\<lparr>username = ?name, userId = uid, createdAt = clock w (Suc (ticks w))\<rparr>"
  have pn: "plain_user ?new" using uid(2) valid_username_plain [OF vu] by (simp add: plain_user_def)
  obtain h where h: "hashPassword (sanitize (cred_password credentials)) = Inr h" "h \<noteq> []" "latin1 h"
    using hashPassword_succeeds by blast
  have a2: "\<not> rejects ?w2 (calls ?w2)" "\<not> rejects ?w2 (Suc (calls ?w2))" using rel by simp_all
  from secureStore_held [OF a2 h(3), of "js ''pwd_'' @ uid"] obtain w3 where
    w3: "secureStore (js ''pwd_'' @ uid) h ?w2 = (Inr (), w3)" "rejects w3 = rejects w"
        "clock w3 = clock w" "ticks w3 = Suc (Suc (Suc (ticks w)))" "heap w3 = heap w"
        "held (js ''pwd_'' @ uid) w3 = Some h"
        "\<forall>k'. k' \<noteq> js ''pwd_'' @ uid \<longrightarrow> held k' w3 = held k' ?w2"
    using h(2) by auto
  let ?text = "JSON_stringify_users (us @ [?new])"
  have plall: "list_all plain_user (us @ [?new])" using pl pn by simp
  have lt: "latin1 ?text" using plall by (rule JSON_stringify_users_latin1)
  have a3: "\<not> rejects w3 (calls w3)" "\<not> rejects w3 (Suc (calls w3))" using rel w3(2) by simp_all
  from secureStore_held [OF a3 lt, of USERS_STORAGE_KEY] obtain w4 where
    w4: "secureStore USERS_STORAGE_KEY ?text w3 = (Inr (), w4)" "rejects w4 = rejects w3"
        "clock w4 = clock w3" "ticks w4 = Suc (ticks w3)" "heap w4 = heap w3"
        "held USERS_STORAGE_KEY w4 = Some ?text"
        "\<forall>k'. k' \<noteq> USERS_STORAGE_KEY \<longrightarrow> held k' w4 = held k' w3"
    using JSON_stringify_users_nonempty by auto
  have reg': "registerUser credentials w = (\<lparr>success = True, error = None, user = Some ?new\<rparr>, w4)"
    using vu vp nw nd uid(1) h(1) w3(1) w4(1) g
    by (simp add: registerUser_def Let_def Date_now_def)
  have pwd: "held (js ''pwd_'' @ uid) w4 = Some h"
    using w4(7) w3(6) pwd_key_not_users by simp
  have "held SESSION_STORAGE_KEY w4 = held SESSION_STORAGE_KEY w3"
    using w4(7) users_key_not_session by (metis)
  also have "\<dots> = held SESSION_STORAGE_KEY ?w2"
    using w3(7) pwd_key_not_session by (metis)
  also have "\<dots> = held SESSION_STORAGE_KEY w" by simp
  finally have sess: "held SESSION_STORAGE_KEY w4 = held SESSION_STORAGE_KEY w" .
  show ?thesis
    using reg' uid(1) pn w4(2,3,4,5,6) w3(2,3,4,5) plall h(1) pwd sess
    by (intro exI [of _ ?new] exI [of _ w4] exI [of _ h]) simp
qed

text \<open>A session is written for a plain user when the two writes are accepted.\<close>

lemma createSession_effect:
  assumes "\<not> rejects w (calls w)" "\<not> rejects w (Suc (calls w))" "plain_user u"
  shows "\<exists>w' sid. createSession u w = (Inr (), w') \<and> rejects w' = rejects w \<and> clock w' = clock w \<and>
           ticks w' = ticks w + 4 \<and> calls w' = Suc (Suc (calls w)) \<and> heap w' = heap w \<and>
           json_plain sid \<and>
           held SESSION_STORAGE_KEY w' =
             Some (JSON_stringify_session
                \<lparr>session_userId = userId u, session_username = username u,
                 loginTime = clock w (ticks w), sessionId = sid\<rparr>) \<and>
           (\<forall>k'. k' \<noteq> SESSION_STORAGE_KEY \<longrightarrow> held k' w' = held k' w)"
proof -
  let ?w3 = "w\<lparr>ticks := Suc (Suc (Suc (ticks w)))\<rparr>"
  obtain sid where sid:
    "generateSecureUserId (clock w (Suc (Suc (ticks w))))
       (username u @ Number_toString (clock w (Suc (ticks w))) 10) = Inr sid" "json_plain sid"
    using generateSecureUserId_succeeds by blast
  let ?s = "\<lparr>session_userId = userId u, session_username = username u,
             loginTime = clock w (ticks w), sessionId = sid\<rparr>"
  have lt: "latin1 (JSON_stringify_session ?s)"
    using assms(3) sid(2) by (intro JSON_stringify_session_latin1) (simp_all add: plain_user_def)
  have a3: "\<not> rejects ?w3 (calls ?w3)" "\<not> rejects ?w3 (Suc (calls ?w3))" using assms(1,2) by simp_all
  from secureStore_held [OF a3 lt, of SESSION_STORAGE_KEY] obtain w' where
    w': "secureStore SESSION_STORAGE_KEY (JSON_stringify_session ?s) ?w3 = (Inr (), w')"
        "rejects w' = rejects w" "clock w' = clock w" "ticks w' = Suc (Suc (Suc (Suc (ticks w))))"
        "calls w' = Suc (Suc (calls w))" "heap w' = heap w"
        "held SESSION_STORAGE_KEY w' = Some (JSON_stringify_session ?s)"
        "\<forall>k'. k' \<noteq> SESSION_STORAGE_KEY \<longrightarrow> held k' w' = held k' ?w3"
    using JSON_stringify_session_nonempty by auto
  have c: "createSession u w = (Inr (), w')"
    using sid(1) w'(1) by (simp add: createSession_def Date_now_def)
  have fr: "\<forall>k'. k' \<noteq> SESSION_STORAGE_KEY \<longrightarrow> held k' w' = held k' w"
    using w'(8) by simp
  show ?thesis
    using c w'(2,3,4,5,6,7) sid(2) fr
    by (intro exI [of _ w'] exI [of _ sid]) simp
qed

text \<open>What \<open>authenticateUser\<close> does once the format checks and the rate limiter let it through.\<close>

lemma authenticateUser_unfold:
  assumes vu: "isValid (validateAndSanitizeInput (cred_username credentials) Username)"
    and vp: "isValid (validateAndSanitizeInput (cred_password credentials) Password)"
    and rl: "checkRateLimit (clock w (ticks w)) (sanitize (cred_username credentials)) (heap w)
               = (Inr r, h)"
    and al: "allowed r"
    and hp: "hashPassword (sanitize (cred_password credentials)) = Inr digest"
  shows "authenticateUser credentials w =
     (case getStoredUsers (w\<lparr>ticks := Suc (ticks w), heap := h\<rparr>) of
        (users, w3) \<Rightarrow>
          (case find_user (sanitize (cred_username credentials)) users of
             None \<Rightarrow> (failure (js ''Invalid username or password''), w3)
           | Some u \<Rightarrow>
               (case secureRetrieve (js ''pwd_'' @ userId u) w3 of
                  (stored, w4) \<Rightarrow>
                    if stored \<noteq> Some digest
                    then (failure (js ''Invalid username or password''), w4)
                    else (case createSession u w4 of
                            (Inl e, w5) \<Rightarrow>
                              (failure (js ''Authentication failed. Please try again.''), w5)
                          | (Inr done, w5) \<Rightarrow>
                              (\<lparr>success = True, error = None, user = Some u\<rparr>, w5)))))"
  using vu vp rl al hp
  by (simp add: authenticateUser_def Let_def Date_now_def split: option.split prod.split)

lemma authenticateUser_success:
  assumes vu: "isValid (validateAndSanitizeInput (cred_username credentials) Username)"
    and vp: "isValid (validateAndSanitizeInput (cred_password credentials) Password)"
    and rl: "checkRateLimit (clock w (ticks w)) (sanitize (cred_username credentials)) (heap w)
               = (Inr r, h)"
    and al: "allowed r"
    and rel: "\<forall>n. \<not> rejects w n"
    and reg: "held USERS_STORAGE_KEY w = Some (JSON_stringify_users us)" "list_all plain_user us"
    and fu: "find_user (sanitize (cred_username credentials)) us = Some u"
    and pu: "plain_user u"
    and hp: "hashPassword (sanitize (cred_password credentials)) = Inr digest"
    and st: "held (js ''pwd_'' @ userId u) w = Some digest"
  shows "fst (authenticateUser credentials w) = \<lparr>success = True, error = None, user = Some u\<rparr>"
proof -
  let ?w2 = "w\<lparr>ticks := Suc (ticks w), heap := h\<rparr>"
  let ?w3 = "?w2\<lparr>calls := Suc (Suc (calls ?w2))\<rparr>"
  let ?w4 = "?w3\<lparr>calls := Suc (Suc (calls ?w3))\<rparr>"
  have g: "getStoredUsers ?w2 = (us, ?w3)"
    using rel reg by (intro getStoredUsers_served) simp_all
  have s: "secureRetrieve (js ''pwd_'' @ userId u) ?w3 = (Some digest, ?w4)"
    using rel st secureRetrieve_served [of ?w3 "js ''pwd_'' @ userId u"] by simp
  have "\<not> rejects ?w4 (calls ?w4)" "\<not> rejects ?w4 (Suc (calls ?w4))" using rel by simp_all
  from createSession_effect [OF this pu] obtain w5 where c: "createSession u ?w4 = (Inr (), w5)"
    by blast
  show ?thesis
    unfolding authenticateUser_unfold [OF vu vp rl al hp] g using fu s c by simp
qed

subsection \<open>The registry slot under the operations of the service\<close>

text \<open>
  The theorems about \<open>registerUser\<close> and \<open>authenticateUser\<close> suppose that the registry
  slot holds nothing or the text that the service writes for a list of plain user
  records. This holds in the empty store; a registration on a medium that serves every
  call keeps it, and the other operations, which write to the session slot alone, leave
  what the registry slot holds as it is, whatever the medium does.
\<close>

lemma secureStore_other_key:
  assumes "k' \<noteq> k"
  shows "held k' (snd (secureStore k v w)) = held k' w"
proof (rule held_cong)
  show "items (snd (secureStore k v w)) (js ''secure_'' @ k') = items w (js ''secure_'' @ k')"
    using assms physical_keys_differ [of k' k]
    by (simp add: secureStore_def Date_now_def AsyncStorage_setItem_def Let_def
        split: sum.split prod.split)
  show "items (snd (secureStore k v w)) (js ''key_'' @ k') = items w (js ''key_'' @ k')"
    using assms physical_keys_differ [of k k', symmetric]
    by (simp add: secureStore_def Date_now_def AsyncStorage_setItem_def Let_def
        split: sum.split prod.split)
qed

lemma secureRetrieve_keeps: "held k' (snd (secureRetrieve k w)) = held k' w"
  using secureRetrieve_frame [of k w] by (simp add: held_def)

lemma getStoredUsers_keeps: "held k' (snd (getStoredUsers w)) = held k' w"
  using getStoredUsers_frame [of w] by (simp add: held_def)

lemma logout_keeps_users: "held USERS_STORAGE_KEY (logout w) = held USERS_STORAGE_KEY w"
proof -
  have "held USERS_STORAGE_KEY (logout w)
          = held USERS_STORAGE_KEY (snd (secureStore SESSION_STORAGE_KEY [] w))"
    by (rule held_cong) (simp_all add: logout_items)
  then show ?thesis by (simp add: secureStore_other_key users_key_not_session)
qed

lemma createSession_keeps_users:
  "held USERS_STORAGE_KEY (snd (createSession u w)) = held USERS_STORAGE_KEY w"
proof -
  have "\<And>v w'. held USERS_STORAGE_KEY (snd (secureStore SESSION_STORAGE_KEY v w'))
          = held USERS_STORAGE_KEY w'"
    by (simp add: secureStore_other_key users_key_not_session)
  then show ?thesis
    by (simp add: createSession_def Date_now_def split: sum.split)
qed

lemma authenticateUser_keeps_users:
  "held USERS_STORAGE_KEY (snd (authenticateUser c w)) = held USERS_STORAGE_KEY w"
proof -
  have g: "\<And>w' users w3. getStoredUsers w' = (users, w3) \<Longrightarrow>
             held USERS_STORAGE_KEY w3 = held USERS_STORAGE_KEY w'"
    using getStoredUsers_keeps by (metis snd_conv)
  have s: "\<And>k w' x w4. secureRetrieve k w' = (x, w4) \<Longrightarrow>
             held USERS_STORAGE_KEY w4 = held USERS_STORAGE_KEY w'"
    using secureRetrieve_keeps by (metis snd_conv)
  have cs: "\<And>u w' e w5. createSession u w' = (e, w5) \<Longrightarrow>
              held USERS_STORAGE_KEY w5 = held USERS_STORAGE_KEY w'"
    using createSession_keeps_users by (metis snd_conv)
  show ?thesis
    by (auto simp: authenticateUser_def Let_def Date_now_def dest!: g s cs
        split: prod.split sum.split option.split)
qed

lemma getCurrentSession_keeps_users:
  "held USERS_STORAGE_KEY (snd (getCurrentSession w)) = held USERS_STORAGE_KEY w"
proof -
  have s: "\<And>k w' x w1. secureRetrieve k w' = (x, w1) \<Longrightarrow>
             held USERS_STORAGE_KEY w1 = held USERS_STORAGE_KEY w'"
    using secureRetrieve_keeps by (metis snd_conv)
  show ?thesis
    by (auto simp: getCurrentSession_def Let_def Date_now_def logout_keeps_users dest!: s
        split: prod.split sum.split option.split)
qed

lemma registerUser_keeps_registry:
  assumes rel: "\<forall>n. \<not> rejects w n"
    and reg: "held USERS_STORAGE_KEY w = None \<and> us = [] \<or>
              held USERS_STORAGE_KEY w = Some (JSON_stringify_users us) \<and> list_all plain_user us"
  shows "\<exists>us'. (held USERS_STORAGE_KEY (snd (registerUser c w)) = None \<and> us' = [] \<or>
               held USERS_STORAGE_KEY (snd (registerUser c w)) = Some (JSON_stringify_users us') \<and>
               list_all plain_user us') \<and>
              (\<forall>n. \<not> rejects (snd (registerUser c w)) n)"
proof (cases "isValid (validateAndSanitizeInput (cred_username c) Username) \<and>
              isValid (validateAndSanitizeInput (cred_password c) Password) \<and>
              \<not> isWeakPassword (cred_password c) \<and>
              \<not> list_ex (\<lambda>u. username u = sanitize (cred_username c)) us")
  case True
  with registerUser_effect [of c w us] rel reg obtain newUser w' where
    "registerUser c w = (\<lparr>success = True, error = None, user = Some newUser\<rparr>, w')"
    "rejects w' = rejects w"
    "held USERS_STORAGE_KEY w' = Some (JSON_stringify_users (us @ [newUser]))"
    "list_all plain_user (us @ [newUser])"
    by blast
  then show ?thesis using rel by (intro exI [of _ "us @ [newUser]"]) simp
next
  case False
  have g: "getStoredUsers w = (us, w\<lparr>calls := Suc (Suc (calls w))\<rparr>)"
    using rel reg by (intro getStoredUsers_served) simp_all
  from False have "snd (registerUser c w) = w \<or>
      snd (registerUser c w) = w\<lparr>calls := Suc (Suc (calls w))\<rparr>"
    by (auto simp: registerUser_def Let_def g)
  then show ?thesis using rel reg by (intro exI [of _ us]) auto
qed


lemmas validate_eval =
  validateAndSanitizeInput_def sanitize_def trim_def js_def js_whitespace_def script_match_def
  ascii_lower_def dangerous_char_def username_pattern_def word_char_def lookahead_def
  line_terminator_def isWeakPassword_def toLowerCase_def weakPasswords_def

lemma held_fresh: "held k (fresh_world c) = None"
  by (simp add: held_def fresh_world_def decrypt_stored_def falsy_def)

lemma fresh_world_serves: "\<forall>n. \<not> rejects (fresh_world c) n"
  by (simp add: fresh_world_def)

text \<open>
  A stretch of the password without line terminator that holds a lower-case letter, an
  upper-case letter and a digit makes the pattern of the password check match.
\<close>

lemma lookahead_line:
  assumes "\<not> list_ex line_terminator line" "list_ex P line"
  shows "lookahead P (line @ rest)"
proof -
  have "takeWhile (\<lambda>c. \<not> line_terminator c) (line @ rest)
          = line @ takeWhile (\<lambda>c. \<not> line_terminator c) rest"
    using assms(1) by (simp add: list_ex_iff takeWhile_append2)
  then show ?thesis using assms(2) by (simp only: lookahead_def list_ex_append) simp
qed

lemma password_pattern_line:
  assumes "\<not> list_ex line_terminator line"
    and "list_ex (\<lambda>x. 97 \<le> x \<and> x \<le> 122) line" "list_ex (\<lambda>x. 65 \<le> x \<and> x \<le> 90) line"
    and "list_ex (\<lambda>x. 48 \<le> x \<and> x \<le> 57) line"
  shows "password_pattern (before @ line @ rest)"
proof (induction before)
  case Nil
  obtain c cs where l: "line = c # cs" using assms(2) by (cases line) simp_all
  have "lookahead (\<lambda>x. 97 \<le> x \<and> x \<le> 122) (line @ rest)"
    "lookahead (\<lambda>x. 65 \<le> x \<and> x \<le> 90) (line @ rest)"
    "lookahead (\<lambda>x. 48 \<le> x \<and> x \<le> 57) (line @ rest)"
    using assms by (auto intro: lookahead_line)
  then show ?case unfolding l by simp
next
  case (Cons x xs)
  then show ?case by simp
qed

text \<open>
  Claim C1, as amended. Let the sanitized user name have 3 to 20 characters, all of them
  letters, digits or underscores; let the sanitized password have at least 8 characters
  and hold, in one stretch without line terminator, a lower-case letter, an upper-case
  letter and a digit; let the password not be on the list of weak passwords; let the
  medium serve every call; and let the registry slot hold nothing or the text that the
  service writes for users \<open>us\<close>, none of which carries the sanitized user name. Then
  \<open>registerUser\<close> succeeds, and \<open>authenticateUser\<close> with the same credentials right
  after it, when the rate limiter returns allowed for the attempt, succeeds with the user
  just registered, whose name is the sanitized user name.
\<close>

theorem register_then_authenticate:
  assumes name: "3 \<le> length (sanitize u)" "length (sanitize u) \<le> 20" "list_all word_char (sanitize u)"
    and long: "8 \<le> length (sanitize p)"
    and line: "sanitize p = before @ line @ rest" "\<not> list_ex line_terminator line"
      "list_ex (\<lambda>x. 97 \<le> x \<and> x \<le> 122) line" "list_ex (\<lambda>x. 65 \<le> x \<and> x \<le> 90) line"
      "list_ex (\<lambda>x. 48 \<le> x \<and> x \<le> 57) line"
    and nw: "\<not> isWeakPassword p"
    and rel: "\<forall>n. \<not> rejects w n"
    and reg: "held USERS_STORAGE_KEY w = None \<and> us = [] \<or>
              held USERS_STORAGE_KEY w = Some (JSON_stringify_users us) \<and> list_all plain_user us"
    and nd: "\<not> list_ex (\<lambda>x. username x = sanitize u) us"
    and registration: "registerUser \<lparr>cred_username = u, cred_password = p\<rparr> w = (r1, w1)"
    and rl: "checkRateLimit (clock w1 (ticks w1)) (sanitize u) (heap w1) = (Inr r, h)"
    and al: "allowed r"
    and authentication: "authenticateUser \<lparr>cred_username = u, cred_password = p\<rparr> w1 = (r2, w2)"
  shows "\<exists>registered.
           r1 = \<lparr>success = True, error = None, user = Some registered\<rparr> \<and>
           r2 = \<lparr>success = True, error = None, user = Some registered\<rparr> \<and>
           username registered = sanitize u"
proof -
  let ?c = "\<lparr>cred_username = u, cred_password = p\<rparr>"
  have ne: "sanitize u \<noteq> []" using name(1) by auto
  have vu: "isValid (validateAndSanitizeInput (cred_username ?c) Username)"
    using name ne by (simp add: valid_username username_pattern_def)
  have "password_pattern (sanitize p)"
    unfolding line(1) using line(2-5) by (rule password_pattern_line)
  then have vp: "isValid (validateAndSanitizeInput (cred_password ?c) Password)"
    using long by (simp add: valid_password)
  from registerUser_effect [of ?c w us] vu vp nw rel reg nd obtain newUser w' d where
    e: "registerUser ?c w = (\<lparr>success = True, error = None, user = Some newUser\<rparr>, w')"
       "username newUser = sanitize u" "plain_user newUser" "rejects w' = rejects w"
       "held USERS_STORAGE_KEY w' = Some (JSON_stringify_users (us @ [newUser]))"
       "list_all plain_user (us @ [newUser])"
       "hashPassword (sanitize p) = Inr d"
       "held (js ''pwd_'' @ userId newUser) w' = Some d"
    by auto
  have w1: "w1 = w'" and r1: "r1 = \<lparr>success = True, error = None, user = Some newUser\<rparr>"
    using registration e(1) by simp_all
  have fu: "find_user (sanitize (cred_username ?c)) (us @ [newUser]) = Some newUser"
    using nd e(2) by (simp add: find_user_append_new)
  have rel': "\<forall>n. \<not> rejects w1 n" using rel e(4) w1 by simp
  have rl': "checkRateLimit (clock w1 (ticks w1)) (sanitize (cred_username ?c)) (heap w1) = (Inr r, h)"
    using rl by simp
  have "fst (authenticateUser ?c w1) = \<lparr>success = True, error = None, user = Some newUser\<rparr>"
    using e(5,6,7,8) unfolding w1 [symmetric]
    by (intro authenticateUser_success [OF vu vp rl' al rel' _ _ fu e(3), where digest = d]) simp_all
  then have r2: "r2 = \<lparr>success = True, error = None, user = Some newUser\<rparr>"
    using authentication by simp
  show ?thesis using r1 r2 e(2) by blast
qed

text \<open>The demo account of the source, registered in an empty store and then logged in.\<close>

theorem register_then_authenticate_witness:
  "\<exists>registered.
     fst (registerUser \<lparr>cred_username = js ''demo_user'', cred_password = js ''SecurePass123!''\<rparr>
            (fresh_world (\<lambda>n. 1700000000000 + int n)))
       = \<lparr>success = True, error = None, user = Some registered\<rparr> \<and>
     fst (authenticateUser \<lparr>cred_username = js ''demo_user'', cred_password = js ''SecurePass123!''\<rparr>
            (snd (registerUser
                    \<lparr>cred_username = js ''demo_user'', cred_password = js ''SecurePass123!''\<rparr>
                    (fresh_world (\<lambda>n. 1700000000000 + int n)))))
       = \<lparr>success = True, error = None, user = Some registered\<rparr> \<and>
     username registered = js ''demo_user''"
proof -
  let ?u = "js ''demo_user''" and ?p = "js ''SecurePass123!''"
  let ?c = "\<lparr>cred_username = ?u, cred_password = ?p\<rparr>"
  let ?w = "fresh_world (\<lambda>n. 1700000000000 + int n)"
  let ?w1 = "snd (registerUser ?c ?w)"
  have su: "sanitize ?u = ?u" and sp: "sanitize ?p = [] @ ?p @ []" by (simp_all add: validate_eval)
  have name: "3 \<le> length (sanitize ?u)" "length (sanitize ?u) \<le> 20" "list_all word_char (sanitize ?u)"
    unfolding su by (simp_all add: js_def word_char_def)
  have long: "8 \<le> length (sanitize ?p)" unfolding sp by (simp add: js_def)
  have line: "\<not> list_ex line_terminator ?p" "list_ex (\<lambda>x. 97 \<le> x \<and> x \<le> 122) ?p"
    "list_ex (\<lambda>x. 65 \<le> x \<and> x \<le> 90) ?p" "list_ex (\<lambda>x. 48 \<le> x \<and> x \<le> 57) ?p"
    by (simp_all add: js_def line_terminator_def)
  have nw: "\<not> isWeakPassword ?p" by (simp add: validate_eval)
  have rel: "\<forall>n. \<not> rejects ?w n" by (rule fresh_world_serves)
  have reg: "held USERS_STORAGE_KEY ?w = None \<and> ([] :: IUser list) = [] \<or>
        held USERS_STORAGE_KEY ?w = Some (JSON_stringify_users []) \<and> list_all plain_user []"
    by (simp add: held_fresh)
  have nd: "\<not> list_ex (\<lambda>x. username x = sanitize ?u) []" by simp
  have registration: "registerUser ?c ?w = (fst (registerUser ?c ?w), ?w1)" by simp
  have authentication: "authenticateUser ?c ?w1 = (fst (authenticateUser ?c ?w1), snd (authenticateUser ?c ?w1))"
    by simp
  have vu: "isValid (validateAndSanitizeInput (cred_username ?c) Username)" by (simp add: validate_eval)
  have vp: "isValid (validateAndSanitizeInput (cred_password ?c) Password)" by (simp add: validate_eval)
  have nw': "\<not> isWeakPassword (cred_password ?c)" using nw by simp
  have nd': "\<not> list_ex (\<lambda>x. username x = sanitize (cred_username ?c)) []" by simp
  have "heap ?w1 = heap ?w"
    using registerUser_effect [OF vu vp nw' rel reg nd'] by auto
  then have hp: "heap ?w1 = fresh_heap" by (simp add: fresh_world_def)
  have "\<not> truthy (table_get fresh_heap (sanitize ?u))"
    unfolding su by (simp add: heap_eval fresh_heap_def js_def)
  from checkRateLimit_unseen [OF this]
  have rl: "checkRateLimit (clock ?w1 (ticks ?w1)) (sanitize ?u) (heap ?w1) =
      (Inr \<lparr>allowed = True, remainingTime = None\<rparr>,
       fresh_heap\<lparr>authAttempts :=
          (authAttempts fresh_heap)(sanitize ?u \<mapsto> first_attempt (clock ?w1 (ticks ?w1)))\<rparr>)"
    unfolding hp by simp
  have al: "allowed \<lparr>allowed = True, remainingTime = None\<rparr>" by simp
  from register_then_authenticate [OF name long sp line nw rel reg nd registration rl al authentication]
  show ?thesis unfolding su .
qed

text \<open>
  Claim C1 as stated holds for every password with the three kinds of characters that is
  not on the list of weak passwords, on any medium, and for every user name. The password
  \<open>abcdefgh\<close>, line feed, \<open>ABC123\<close> has 15 characters and all three kinds, is left
  as it is by the sanitizer and is not on the list of weak passwords, but no line of it
  has all three kinds, and the registration is refused. The password \<open>Password123\<close>
  is valid and is not an entry of the list, but in lower case it is one, and the
  registration is refused. On a medium that rejects its calls the registration of the
  demo account fails. And after an attempt for the user name \<open>__proto__\<close> the account
  \<open>lastAttempt\<close> can be registered but not logged in, although no attempt was made for
  it: the rate limiter throws.
\<close>

theorem register_then_authenticate_counterexample:
  "sanitize (js ''abcdefgh'' @ [10] @ js ''ABC123'') = js ''abcdefgh'' @ [10] @ js ''ABC123'' \<and>
   length (js ''abcdefgh'' @ [10] @ js ''ABC123'') = 15 \<and>
   \<not> isWeakPassword (js ''abcdefgh'' @ [10] @ js ''ABC123'') \<and>
   fst (registerUser
          \<lparr>cred_username = js ''demo_user'',
            cred_password = js ''abcdefgh'' @ [10] @ js ''ABC123''\<rparr>
          (fresh_world (\<lambda>n. 1700000000000 + int n)))
     = failure (js ''Password must contain uppercase, lowercase, and numeric characters'') \<and>
   js ''Password123'' \<notin> set weakPasswords \<and>
   isValid (validateAndSanitizeInput (js ''Password123'') Password) \<and>
   fst (registerUser \<lparr>cred_username = js ''demo_user'', cred_password = js ''Password123''\<rparr>
          (fresh_world (\<lambda>n. 1700000000000 + int n)))
     = failure (js ''Password is too common. Please choose a stronger password.'') \<and>
   fst (registerUser \<lparr>cred_username = js ''demo_user'', cred_password = js ''SecurePass123!''\<rparr>
          ((fresh_world (\<lambda>n. 1700000000000 + int n))\<lparr>rejects := (\<lambda>n. True)\<rparr>))
     = failure (js ''Registration failed. Please try again.'') \<and>
   success (fst (registerUser
                   \<lparr>cred_username = js ''lastAttempt'', cred_password = js ''SecurePass123!''\<rparr>
                   (snd (authenticateUser
                           \<lparr>cred_username = js ''__proto__'', cred_password = js ''SecurePass123!''\<rparr>
                           (fresh_world (\<lambda>n. 1700000000000 + int n)))))) \<and>
   fst (authenticateUser
          \<lparr>cred_username = js ''lastAttempt'', cred_password = js ''SecurePass123!''\<rparr>
          (snd (registerUser
                  \<lparr>cred_username = js ''lastAttempt'', cred_password = js ''SecurePass123!''\<rparr>
                  (snd (authenticateUser
                          \<lparr>cred_username = js ''__proto__'', cred_password = js ''SecurePass123!''\<rparr>
                          (fresh_world (\<lambda>n. 1700000000000 + int n)))))))
     = failure (js ''Authentication failed. Please try again.'')"
proof -
  let ?p = "js ''SecurePass123!''"
  let ?q = "js ''abcdefgh'' @ [10] @ js ''ABC123''"
  let ?w = "fresh_world (\<lambda>n. 1700000000000 + int n)"
  have vp: "isValid (validateAndSanitizeInput ?p Password)" by (simp add: validate_eval)
  have nw: "\<not> isWeakPassword ?p" by (simp add: validate_eval)
  have sp: "sanitize ?p = ?p" by (simp add: validate_eval)
  have 1: "sanitize ?q = ?q" by (simp add: validate_eval)
  have 2: "length ?q = 15" by (simp add: js_def)
  have 3: "\<not> isWeakPassword ?q" by (simp add: validate_eval)
  have 4: "fst (registerUser \<lparr>cred_username = js ''demo_user'', cred_password = ?q\<rparr> ?w)
     = failure (js ''Password must contain uppercase, lowercase, and numeric characters'')"
    by (simp add: registerUser_def validate_eval)
  have c1: "js ''Password123'' \<notin> set weakPasswords" by (simp add: weakPasswords_def js_def)
  have c2: "isValid (validateAndSanitizeInput (js ''Password123'') Password)"
    by (simp add: validate_eval)
  have c3: "fst (registerUser \<lparr>cred_username = js ''demo_user'', cred_password = js ''Password123''\<rparr> ?w)
     = failure (js ''Password is too common. Please choose a stronger password.'')"
    by (simp add: registerUser_def validate_eval)
  let ?c = "\<lparr>cred_username = js ''demo_user'', cred_password = ?p\<rparr>"
  let ?r = "?w\<lparr>rejects := (\<lambda>n. True)\<rparr>"
  have vd: "isValid (validateAndSanitizeInput (js ''demo_user'') Username)" by (simp add: validate_eval)
  have g: "getStoredUsers ?r = ([], ?r\<lparr>calls := Suc (calls ?r)\<rparr>)"
    by (simp add: getStoredUsers_def secureRetrieve_def AsyncStorage_getItem_def falsy_def)
  obtain uid where uid:
    "generateSecureUserId (clock ?r (ticks ?r)) (sanitize (js ''demo_user'')) = Inr uid"
    using generateSecureUserId_succeeds by blast
  obtain d where d: "hashPassword (sanitize ?p) = Inr d" "latin1 d"
    using hashPassword_succeeds by blast
  let ?r2 = "?r\<lparr>calls := Suc (calls ?r), ticks := Suc (Suc (ticks ?r))\<rparr>"
  have "rejects ?r2 (calls ?r2)" by simp
  from secureStore_first_rejected [OF this d(2), of "js ''pwd_'' @ uid"]
  have s: "fst (secureStore (js ''pwd_'' @ uid) d ?r2) = Inl SecureStoreError" by simp
  have 5: "fst (registerUser ?c ?r) = failure (js ''Registration failed. Please try again.'')"
    using vd vp nw g uid d(1) s
    by (cases "secureStore (js ''pwd_'' @ uid) d ?r2")
       (simp add: registerUser_def Let_def Date_now_def)
  let ?a = "\<lparr>cred_username = js ''__proto__'', cred_password = ?p\<rparr>"
  let ?b = "\<lparr>cred_username = js ''lastAttempt'', cred_password = ?p\<rparr>"
  have va: "isValid (validateAndSanitizeInput (cred_username ?a) Username)" by (simp add: validate_eval)
  have vb: "isValid (validateAndSanitizeInput (cred_username ?b) Username)" by (simp add: validate_eval)
  have vpa: "isValid (validateAndSanitizeInput (cred_password ?a) Password)" using vp by simp
  have vpb: "isValid (validateAndSanitizeInput (cred_password ?b) Password)" using vp by simp
  have sa: "sanitize (js ''__proto__'') = js ''__proto__''"
    and sb: "sanitize (js ''lastAttempt'') = js ''lastAttempt''" by (simp_all add: validate_eval)
  define polluted where "polluted = fresh_heap\<lparr>Object_prototype :=
      \<lparr>count = Some NaN, lastAttempt = Some (Num 1700000000000)\<rparr>\<rparr>"
  have "checkRateLimit 1700000000000 (js ''__proto__'') fresh_heap
      = (Inr \<lparr>allowed = True, remainingTime = None\<rparr>, polluted)"
    by (simp add: polluted_def checkRateLimit_def heap_eval number_eval fresh_heap_def js_def)
  then have rla: "checkRateLimit (clock ?w (ticks ?w)) (sanitize (cred_username ?a)) (heap ?w)
      = (Inr \<lparr>allowed = True, remainingTime = None\<rparr>, polluted)"
    by (simp add: sa fresh_world_def)
  have ala: "allowed \<lparr>allowed = True, remainingTime = None\<rparr>" by simp
  obtain da where da: "hashPassword (sanitize (cred_password ?a)) = Inr da"
    using hashPassword_succeeds by blast
  let ?w2 = "?w\<lparr>ticks := Suc (ticks ?w), heap := polluted\<rparr>"
  have "getStoredUsers ?w2 = ([], ?w2\<lparr>calls := Suc (Suc (calls ?w2))\<rparr>)"
    using fresh_world_serves [of "\<lambda>n. 1700000000000 + int n"]
    by (intro getStoredUsers_served) (simp_all add: held_fresh)
  then have wa: "snd (authenticateUser ?a ?w) = ?w2\<lparr>calls := Suc (Suc (calls ?w2))\<rparr>"
    unfolding authenticateUser_unfold [OF va vpa rla ala da] by (simp add: find_user_def)
  let ?w3 = "?w2\<lparr>calls := Suc (Suc (calls ?w2))\<rparr>"
  have rel3: "\<forall>n. \<not> rejects ?w3 n" by (simp add: fresh_world_def)
  have reg3: "held USERS_STORAGE_KEY ?w3 = None \<and> ([] :: IUser list) = [] \<or>
        held USERS_STORAGE_KEY ?w3 = Some (JSON_stringify_users []) \<and> list_all plain_user []"
    by (simp add: held_fresh)
  have nwb: "\<not> isWeakPassword (cred_password ?b)" using nw by simp
  have ndb: "\<not> list_ex (\<lambda>x. username x = sanitize (cred_username ?b)) []" by simp
  from registerUser_effect [OF vb vpb nwb rel3 reg3 ndb] obtain newUser w' where
    e: "registerUser ?b ?w3 = (\<lparr>success = True, error = None, user = Some newUser\<rparr>, w')"
       "clock w' = clock ?w3" "ticks w' = ticks ?w3 + 4" "heap w' = heap ?w3"
    by auto
  have 6: "success (fst (registerUser ?b (snd (authenticateUser ?a ?w))))"
    unfolding wa using e(1) by simp
  have now: "clock w' (ticks w') = 1700000000005"
    unfolding e(2,3) by (simp add: fresh_world_def)
  have hw: "heap w' = polluted" unfolding e(4) by simp
  have "fst (checkRateLimit 1700000000005 (js ''lastAttempt'') polluted) = Inl TypeError"
    by (simp add: polluted_def checkRateLimit_def heap_eval number_eval fresh_heap_def js_def)
  then have "fst (authenticateUser ?b w') = failure (js ''Authentication failed. Please try again.'')"
    using vb vpb now hw
    by (cases "checkRateLimit 1700000000005 (js ''lastAttempt'') polluted")
       (simp add: authenticateUser_def Let_def Date_now_def sb)
  then have 7: "fst (authenticateUser ?b (snd (registerUser ?b (snd (authenticateUser ?a ?w)))))
      = failure (js ''Authentication failed. Please try again.'')"
    unfolding wa e(1) by simp
  from 1 2 3 4 c1 c2 c3 5 6 7 show ?thesis by blast
qed

text \<open>
  Claim C4, as amended. Let the user name and the password have a valid format, the rate
  limiter return allowed for the attempt, and the registry slot hold nothing or the text
  that the service writes for users \<open>us\<close>. When none of them carries the sanitized user
  name, and when one does but the digest held for it is not the digest of the supplied
  password, \<open>authenticateUser\<close> returns the same failure, with the message
  \<open>Invalid username or password\<close>, whichever of its reads the medium serves.
\<close>

theorem authenticate_generic_failure:
  assumes vu: "isValid (validateAndSanitizeInput u Username)"
    and vp: "isValid (validateAndSanitizeInput p Password)"
    and rl: "checkRateLimit (clock w (ticks w)) (sanitize u) (heap w) = (Inr r, h)"
    and al: "allowed r"
    and hp: "hashPassword (sanitize p) = Inr digest"
    and reg: "held USERS_STORAGE_KEY w = None \<and> us = [] \<or>
              held USERS_STORAGE_KEY w = Some (JSON_stringify_users us) \<and> list_all plain_user us"
  shows "(find_user (sanitize u) us = None \<longrightarrow>
            fst (authenticateUser \<lparr>cred_username = u, cred_password = p\<rparr> w)
              = failure (js ''Invalid username or password'')) \<and>
         (\<forall>known. find_user (sanitize u) us = Some known \<and>
                  held (js ''pwd_'' @ userId known) w \<noteq> Some digest \<longrightarrow>
            fst (authenticateUser \<lparr>cred_username = u, cred_password = p\<rparr> w)
              = failure (js ''Invalid username or password''))"
proof -
  let ?c = "\<lparr>cred_username = u, cred_password = p\<rparr>"
  let ?w2 = "w\<lparr>ticks := Suc (ticks w), heap := h\<rparr>"
  let ?generic = "failure (js ''Invalid username or password'')"
  obtain users w3 where g: "getStoredUsers ?w2 = (users, w3)" by (cases "getStoredUsers ?w2")
  have reg2: "held USERS_STORAGE_KEY ?w2 = None \<and> us = [] \<or>
              held USERS_STORAGE_KEY ?w2 = Some (JSON_stringify_users us) \<and> list_all plain_user us"
    using reg by simp
  have users: "users = [] \<or> users = us"
    using getStoredUsers_cases [OF reg2] g by simp
  have items3: "items w3 = items w"
    using getStoredUsers_frame [of ?w2] g by simp
  have unf: "authenticateUser ?c w =
     (case find_user (sanitize u) users of
        None \<Rightarrow> (?generic, w3)
      | Some x \<Rightarrow>
          (case secureRetrieve (js ''pwd_'' @ userId x) w3 of
             (stored, w4) \<Rightarrow>
               if stored \<noteq> Some digest then (?generic, w4)
               else (case createSession x w4 of
                       (Inl e, w5) \<Rightarrow>
                         (failure (js ''Authentication failed. Please try again.''), w5)
                     | (Inr done, w5) \<Rightarrow>
                         (\<lparr>success = True, error = None, user = Some x\<rparr>, w5))))"
    using authenticateUser_unfold [of ?c w r h digest] vu vp rl al hp g by simp
  have none: "find_user (sanitize u) users = None \<Longrightarrow> fst (authenticateUser ?c w) = ?generic"
    unfolding unf by simp
  have wrong: "fst (authenticateUser ?c w) = ?generic"
    if k: "find_user (sanitize u) users = Some known"
      and d: "held (js ''pwd_'' @ userId known) w \<noteq> Some digest" for known
  proof -
    obtain stored w4 where s: "secureRetrieve (js ''pwd_'' @ userId known) w3 = (stored, w4)"
      by (cases "secureRetrieve (js ''pwd_'' @ userId known) w3")
    have "held (js ''pwd_'' @ userId known) w3 = held (js ''pwd_'' @ userId known) w"
      by (rule held_cong) (simp_all add: items3)
    then have "stored \<noteq> Some digest"
      using secureRetrieve_cases [of "js ''pwd_'' @ userId known" w3] s d by auto
    then show ?thesis unfolding unf using k s by simp
  qed
  show ?thesis
  proof (intro conjI impI allI)
    assume "find_user (sanitize u) us = None"
    then have "find_user (sanitize u) users = None" using users by (auto simp: find_user_def)
    then show "fst (authenticateUser ?c w) = ?generic" by (rule none)
  next
    fix known
    assume a: "find_user (sanitize u) us = Some known \<and>
               held (js ''pwd_'' @ userId known) w \<noteq> Some digest"
    from users show "fst (authenticateUser ?c w) = ?generic"
    proof
      assume "users = []"
      then have "find_user (sanitize u) users = None" by (simp add: find_user_def)
      then show ?thesis by (rule none)
    next
      assume "users = us"
      then show ?thesis using a wrong by simp
    qed
  qed
qed

text \<open>
  An unknown user in an empty store, and the demo user after registration with another
  password of valid format: the same failure.
\<close>

theorem authenticate_generic_failure_witness:
  "fst (authenticateUser \<lparr>cred_username = js ''demo_user'', cred_password = js ''SecurePass123!''\<rparr>
          (fresh_world (\<lambda>n. 1700000000000 + int n)))
     = failure (js ''Invalid username or password'') \<and>
   fst (authenticateUser \<lparr>cred_username = js ''demo_user'', cred_password = js ''WrongPass456!''\<rparr>
          (snd (registerUser
                  \<lparr>cred_username = js ''demo_user'', cred_password = js ''SecurePass123!''\<rparr>
                  (fresh_world (\<lambda>n. 1700000000000 + int n)))))
     = failure (js ''Invalid username or password'')"
proof -
  let ?u = "js ''demo_user''" and ?p = "js ''SecurePass123!''" and ?q = "js ''WrongPass456!''"
  let ?c = "\<lparr>cred_username = ?u, cred_password = ?p\<rparr>"
  let ?w = "fresh_world (\<lambda>n. 1700000000000 + int n)"
  let ?w1 = "snd (registerUser ?c ?w)"
  have vu: "isValid (validateAndSanitizeInput ?u Username)" by (simp add: validate_eval)
  have vp: "isValid (validateAndSanitizeInput ?p Password)" by (simp add: validate_eval)
  have vq: "isValid (validateAndSanitizeInput ?q Password)" by (simp add: validate_eval)
  have nw: "\<not> isWeakPassword (cred_password ?c)" by (simp add: validate_eval)
  have rel: "\<forall>n. \<not> rejects ?w n" by (rule fresh_world_serves)
  have reg: "held USERS_STORAGE_KEY ?w = None \<and> ([] :: IUser list) = [] \<or>
        held USERS_STORAGE_KEY ?w = Some (JSON_stringify_users []) \<and> list_all plain_user []"
    by (simp add: held_fresh)
  have nd: "\<not> list_ex (\<lambda>x. username x = sanitize (cred_username ?c)) []" by simp
  have su: "sanitize ?u = ?u" and sp: "sanitize ?p = ?p" and sq: "sanitize ?q = ?q"
    by (simp_all add: validate_eval)
  have hp: "hashPassword (sanitize ?p) = Inr (js ''LTRyd3JyMA=='')"
    unfolding sp
    by (simp add: hashPassword_def js_def ToInt32_def Number_toString_def digits.simps
          digit_char_def btoa_def b64_char_def salt_def replicate_two)
  have hq: "hashPassword (sanitize ?q) = Inr (js ''LTJxYjZidA=='')"
    unfolding sq
    by (simp add: hashPassword_def js_def ToInt32_def Number_toString_def digits.simps
          digit_char_def btoa_def b64_char_def salt_def replicate_two)
  have unseen: "\<not> truthy (table_get fresh_heap (sanitize ?u))"
    unfolding su by (simp add: heap_eval fresh_heap_def js_def)
  have al: "allowed \<lparr>allowed = True, remainingTime = None\<rparr>" by simp
  have rl0: "checkRateLimit (clock ?w (ticks ?w)) (sanitize ?u) (heap ?w) =
      (Inr \<lparr>allowed = True, remainingTime = None\<rparr>,
       fresh_heap\<lparr>authAttempts :=
          (authAttempts fresh_heap)(sanitize ?u \<mapsto> first_attempt (clock ?w (ticks ?w)))\<rparr>)"
    using checkRateLimit_unseen [OF unseen] by (simp add: fresh_world_def)
  have none: "find_user (sanitize ?u) [] = None" by (simp add: find_user_def)
  have 1: "fst (authenticateUser ?c ?w) = failure (js ''Invalid username or password'')"
    by (rule authenticate_generic_failure [OF vu vp rl0 al hp reg, THEN conjunct1, THEN mp, OF none])
  have vu': "isValid (validateAndSanitizeInput (cred_username ?c) Username)" using vu by simp
  have vp': "isValid (validateAndSanitizeInput (cred_password ?c) Password)" using vp by simp
  from registerUser_effect [OF vu' vp' nw rel reg nd] obtain newUser w' d where
    e: "registerUser ?c ?w = (\<lparr>success = True, error = None, user = Some newUser\<rparr>, w')"
       "username newUser = sanitize ?u" "heap w' = heap ?w"
       "held USERS_STORAGE_KEY w' = Some (JSON_stringify_users ([] @ [newUser]))"
       "list_all plain_user ([] @ [newUser])"
       "hashPassword (sanitize ?p) = Inr d"
       "held (js ''pwd_'' @ userId newUser) w' = Some d"
    by auto
  have w1: "?w1 = w'" using e(1) by simp
  have dd: "d = js ''LTRyd3JyMA==''" using e(6) hp by simp
  have rl1: "checkRateLimit (clock ?w1 (ticks ?w1)) (sanitize ?u) (heap ?w1) =
      (Inr \<lparr>allowed = True, remainingTime = None\<rparr>,
       fresh_heap\<lparr>authAttempts :=
          (authAttempts fresh_heap)(sanitize ?u \<mapsto> first_attempt (clock ?w1 (ticks ?w1)))\<rparr>)"
    unfolding w1 e(3) using checkRateLimit_unseen [OF unseen] by (simp add: fresh_world_def)
  have reg1: "held USERS_STORAGE_KEY ?w1 = None \<and> [newUser] = [] \<or>
        held USERS_STORAGE_KEY ?w1 = Some (JSON_stringify_users [newUser]) \<and>
        list_all plain_user [newUser]"
    unfolding w1 using e(4,5) by simp
  have known: "find_user (sanitize ?u) [newUser] = Some newUser \<and>
               held (js ''pwd_'' @ userId newUser) ?w1 \<noteq> Some (js ''LTJxYjZidA=='')"
    unfolding w1 e(7) dd using e(2) by (simp add: find_user_def js_def)
  have 2: "fst (authenticateUser \<lparr>cred_username = ?u, cred_password = ?q\<rparr> ?w1)
             = failure (js ''Invalid username or password'')"
    by (rule authenticate_generic_failure [OF vu vq rl1 al hq reg1, THEN conjunct2, THEN spec,
          THEN mp, OF known])
  from 1 2 show ?thesis by (rule conjI)
qed

text \<open>
  Claim C4 as stated makes every wrong password fail. The digest is a 32-bit hash:
  \<open>SecurePass1BB\<close> has the digest of \<open>SecurePass1Aa\<close> (\<open>Aa\<close> and \<open>BB\<close> both add
  2112), and logs in to the account registered with the other.
\<close>

theorem authenticate_collision_counterexample:
  "js ''SecurePass1BB'' \<noteq> js ''SecurePass1Aa'' \<and>
   isValid (validateAndSanitizeInput (js ''SecurePass1BB'') Password) \<and>
   success (fst (registerUser
                   \<lparr>cred_username = js ''demo_user'', cred_password = js ''SecurePass1Aa''\<rparr>
                   (fresh_world (\<lambda>n. 1700000000000 + int n)))) \<and>
   success (fst (authenticateUser
                   \<lparr>cred_username = js ''demo_user'', cred_password = js ''SecurePass1BB''\<rparr>
                   (snd (registerUser
                           \<lparr>cred_username = js ''demo_user'', cred_password = js ''SecurePass1Aa''\<rparr>
                           (fresh_world (\<lambda>n. 1700000000000 + int n))))))"
proof -
  let ?u = "js ''demo_user''" and ?p = "js ''SecurePass1Aa''" and ?q = "js ''SecurePass1BB''"
  let ?c = "\<lparr>cred_username = ?u, cred_password = ?p\<rparr>"
  let ?d = "\<lparr>cred_username = ?u, cred_password = ?q\<rparr>"
  let ?w = "fresh_world (\<lambda>n. 1700000000000 + int n)"
  let ?w1 = "snd (registerUser ?c ?w)"
  have ne: "?q \<noteq> ?p" by (simp add: js_def)
  have vu: "isValid (validateAndSanitizeInput (cred_username ?c) Username)" by (simp add: validate_eval)
  have vp: "isValid (validateAndSanitizeInput (cred_password ?c) Password)" by (simp add: validate_eval)
  have vq: "isValid (validateAndSanitizeInput ?q Password)" by (simp add: validate_eval)
  have nw: "\<not> isWeakPassword (cred_password ?c)" by (simp add: validate_eval)
  have rel: "\<forall>n. \<not> rejects ?w n" by (rule fresh_world_serves)
  have reg: "held USERS_STORAGE_KEY ?w = None \<and> ([] :: IUser list) = [] \<or>
        held USERS_STORAGE_KEY ?w = Some (JSON_stringify_users []) \<and> list_all plain_user []"
    by (simp add: held_fresh)
  have nd: "\<not> list_ex (\<lambda>x. username x = sanitize (cred_username ?c)) []" by simp
  have su: "sanitize ?u = ?u" and sp: "sanitize ?p = ?p" and sq: "sanitize ?q = ?q"
    by (simp_all add: validate_eval)
  have same: "hashPassword (sanitize ?q) = hashPassword (sanitize ?p)"
    unfolding sp sq by (simp add: hashPassword_def js_def ToInt32_def)
  from registerUser_effect [OF vu vp nw rel reg nd] obtain newUser w' h where
    e: "registerUser ?c ?w = (\<lparr>success = True, error = None, user = Some newUser\<rparr>, w')"
       "username newUser = sanitize ?u" "plain_user newUser" "rejects w' = rejects ?w"
       "heap w' = heap ?w"
       "held USERS_STORAGE_KEY w' = Some (JSON_stringify_users ([] @ [newUser]))"
       "list_all plain_user ([] @ [newUser])"
       "hashPassword (sanitize ?p) = Inr h"
       "held (js ''pwd_'' @ userId newUser) w' = Some h"
    by auto
  have w1: "?w1 = w'" using e(1) by simp
  have r: "success (fst (registerUser ?c ?w))" using e(1) by simp
  have unseen: "\<not> truthy (table_get fresh_heap (sanitize ?u))"
    unfolding su by (simp add: heap_eval fresh_heap_def js_def)
  have rl: "checkRateLimit (clock w' (ticks w')) (sanitize (cred_username ?d)) (heap w') =
      (Inr \<lparr>allowed = True, remainingTime = None\<rparr>,
       fresh_heap\<lparr>authAttempts :=
          (authAttempts fresh_heap)(sanitize ?u \<mapsto> first_attempt (clock w' (ticks w')))\<rparr>)"
    unfolding e(5) using checkRateLimit_unseen [OF unseen] by (simp add: fresh_world_def)
  have al: "allowed \<lparr>allowed = True, remainingTime = None\<rparr>" by simp
  have rel': "\<forall>n. \<not> rejects w' n" using rel e(4) by simp
  have fu: "find_user (sanitize (cred_username ?d)) [newUser] = Some newUser"
    using e(2) by (simp add: find_user_def)
  have hq: "hashPassword (sanitize (cred_password ?d)) = Inr h" using same e(8) by simp
  have vu': "isValid (validateAndSanitizeInput (cred_username ?d) Username)" using vu by simp
  have vq': "isValid (validateAndSanitizeInput (cred_password ?d) Password)" using vq by simp
  have "fst (authenticateUser ?d w') = \<lparr>success = True, error = None, user = Some newUser\<rparr>"
    using e(6,7)
    by (intro authenticateUser_success [OF vu' vq' rl al rel' _ _ fu e(3) hq e(9)]) simp_all
  then have a: "success (fst (authenticateUser ?d ?w1))" unfolding w1 by simp
  from ne vq r a show ?thesis by blast
qed






end
